theory Spec2Isabelle
  imports Complex_Main "HOL-Library.Sublist"
begin

section \<open>JavaScript strings and regular expressions\<close>

text \<open>
  A JavaScript string is a sequence of UTF-16 code units. The model uses \<^typ>\<open>string\<close>
  and reads a \<^typ>\<open>char\<close> as a code unit below 256 (the Latin-1 block); on that block
  \<open>toLowerCase\<close> and the case folding of a regular expression with the \<open>i\<close> flag are
  the functions below, and the line terminators are line feed and carriage return.
\<close>

abbreviation DQ :: char where "DQ \<equiv> CHR 0x22"
abbreviation BS :: char where "BS \<equiv> CHR 0x5C"
abbreviation LF :: char where "LF \<equiv> CHR 0x0A"
abbreviation CR :: char where "CR \<equiv> CHR 0x0D"

text \<open>
  A letter of the block is a code unit \<open>0x41..0x5A\<close> or \<open>0xC0..0xDE\<close> without \<open>0xD7\<close>
  (upper case), or the same plus \<open>0x20\<close> (lower case): bit 6 is set, bit 5 tells the
  case, and the low five bits are \<open>1..26\<close> below \<open>0x80\<close>, and neither \<open>23\<close> nor \<open>31\<close>
  above. \<open>Char\<close> lists the bits of a code unit, lowest first.
\<close>

definition letter_index :: "bool \<Rightarrow> bool \<Rightarrow> bool \<Rightarrow> bool \<Rightarrow> bool \<Rightarrow> bool \<Rightarrow> bool" where
  "letter_index b0 b1 b2 b3 b4 b7 =
     (if b7 then \<not> (b0 \<and> b1 \<and> b2 \<and> b4)
      else (b0 \<or> b1 \<or> b2 \<or> b3 \<or> b4) \<and> \<not> (b3 \<and> b4 \<and> (b2 \<or> (b0 \<and> b1))))"

fun toLowerCase_char :: "char \<Rightarrow> char" where
  "toLowerCase_char (Char b0 b1 b2 b3 b4 b5 b6 b7) =
     (if \<not> b5 \<and> b6 \<and> letter_index b0 b1 b2 b3 b4 b7
      then Char b0 b1 b2 b3 b4 True b6 b7
      else Char b0 b1 b2 b3 b4 b5 b6 b7)"

definition toLowerCase :: "string \<Rightarrow> string" where
  "toLowerCase s = map toLowerCase_char s"

text \<open>\<open>Canonicalize\<close> of ECMAScript for a pattern without the \<open>u\<close> flag: the upper case
  of the code unit.\<close>

fun canonicalize :: "char \<Rightarrow> char" where
  "canonicalize (Char b0 b1 b2 b3 b4 b5 b6 b7) =
     (if b5 \<and> b6 \<and> letter_index b0 b1 b2 b3 b4 b7
      then Char b0 b1 b2 b3 b4 False b6 b7
      else Char b0 b1 b2 b3 b4 b5 b6 b7)"

definition startsWith :: "string \<Rightarrow> string \<Rightarrow> bool" where
  "startsWith s p = prefix p s"

text \<open>\<open>Array.prototype.join\<close>.\<close>

fun join :: "string \<Rightarrow> string list \<Rightarrow> string" where
  "join sep [] = []"
| "join sep [x] = x"
| "join sep (x # y # ys) = x @ sep @ join sep (y # ys)"

subsection \<open>The fragment of regular expressions the code uses\<close>

text \<open>
  The patterns of the source are built from pattern characters, \<open>.\<close>, \<open>\s\<close>, a star on one
  of these, groups, alternation and an optional group. \<open>cls\<close> is what one character of the
  subject is tested against; \<open>rx\<close> is the parsed pattern.
\<close>

datatype cls = Lit char | AnyChar | Space

fun cls_match :: "bool \<Rightarrow> cls \<Rightarrow> char \<Rightarrow> bool" where
  "cls_match ic (Lit c) x = (if ic then canonicalize c = canonicalize x else c = x)"
| "cls_match ic AnyChar x = (x \<noteq> LF \<and> x \<noteq> CR)"
| "cls_match ic Space x = (x \<in> set [CHR 0x09, LF, CHR 0x0B, CHR 0x0C, CR, CHR 0x20, CHR 0xA0])"

datatype rx = Eps | Atom cls | StarAtom cls | Seq rx rx | Alt rx rx

text \<open>\<open>pm ic r s\<close>: what is left of \<open>s\<close> after each way of matching \<open>r\<close> at its start.\<close>

fun pm :: "bool \<Rightarrow> rx \<Rightarrow> string \<Rightarrow> string list" where
  "pm ic Eps s = [s]"
| "pm ic (Atom c) [] = []"
| "pm ic (Atom c) (x # xs) = (if cls_match ic c x then [xs] else [])"
| "pm ic (StarAtom c) [] = [[]]"
| "pm ic (StarAtom c) (x # xs) =
     (x # xs) # (if cls_match ic c x then pm ic (StarAtom c) xs else [])"
| "pm ic (Seq a b) s = concat (map (pm ic b) (pm ic a s))"
| "pm ic (Alt a b) s = pm ic a s @ pm ic b s"

fun search :: "bool \<Rightarrow> rx \<Rightarrow> string \<Rightarrow> bool" where
  "search ic r [] = (pm ic r [] \<noteq> [])"
| "search ic r (x # xs) = (pm ic r (x # xs) \<noteq> [] \<or> search ic r xs)"

record regex =
  re_source :: string
  re_ignoreCase :: bool
  re_anchored :: bool
  re_body :: rx

text \<open>\<open>RegExp.prototype.test\<close> (no \<open>g\<close> or \<open>y\<close> flag): a match somewhere in the subject,
  at its start only when the pattern begins with \<open>^\<close>.\<close>

definition regex_test :: "regex \<Rightarrow> string \<Rightarrow> bool" where
  "regex_test re s =
     (if re_anchored re then pm (re_ignoreCase re) (re_body re) s \<noteq> []
      else search (re_ignoreCase re) (re_body re) s)"

subsection \<open>Parsing a pattern source\<close>

datatype tok = TAtom cls | TStar | TQuest | TOpen | TClose | TBar

definition syntax_chars :: string where
  "syntax_chars = ''^$.*+?()[]{}|'' @ [BS]"

text \<open>A backslash before a syntax character is an identity escape, \<open>\s\<close> is the white space
  class; \<open>(?:\<close> and \<open>(\<close> both open a group (captures are not observed by \<open>test\<close>).
  \<open>None\<close>: the pattern is outside the fragment (or a syntax error).\<close>

fun tokenize :: "string \<Rightarrow> tok list option" where
  "tokenize [] = Some []"
| "tokenize (c # r) =
     (if c = BS then
        (case r of
           [] \<Rightarrow> None
         | d # r' \<Rightarrow>
             if d = CHR ''s'' then map_option ((#) (TAtom Space)) (tokenize r')
             else if d \<in> set syntax_chars then map_option ((#) (TAtom (Lit d))) (tokenize r')
             else None)
      else if c = CHR ''('' then
        (if take 2 r = ''?:'' then map_option ((#) TOpen) (tokenize (drop 2 r))
         else map_option ((#) TOpen) (tokenize r))
      else if c = CHR '')'' then map_option ((#) TClose) (tokenize r)
      else if c = CHR ''|'' then map_option ((#) TBar) (tokenize r)
      else if c = CHR ''*'' then map_option ((#) TStar) (tokenize r)
      else if c = CHR ''?'' then map_option ((#) TQuest) (tokenize r)
      else if c = CHR ''.'' then map_option ((#) (TAtom AnyChar)) (tokenize r)
      else if c \<in> set syntax_chars then None
      else map_option ((#) (TAtom (Lit c))) (tokenize r))"

definition mk_seq :: "rx list \<Rightarrow> rx" where
  "mk_seq rs = foldr Seq rs Eps"

fun mk_alt :: "rx list \<Rightarrow> rx" where
  "mk_alt [] = Eps"
| "mk_alt [r] = r"
| "mk_alt (r # r' # rs) = Alt r (mk_alt (r' # rs))"

text \<open>A frame is a group being read: its finished alternatives, and the terms of the
  alternative being read, last first.\<close>

type_synonym frame = "rx list \<times> rx list"

definition close_frame :: "frame \<Rightarrow> rx" where
  "close_frame f = mk_alt (fst f @ [mk_seq (rev (snd f))])"

fun parse :: "tok list \<Rightarrow> frame \<Rightarrow> frame list \<Rightarrow> rx option" where
  "parse [] f [] = Some (close_frame f)"
| "parse [] f (g # st) = None"
| "parse (TAtom c # ts) f st = parse ts (fst f, Atom c # snd f) st"
| "parse (TStar # ts) f st =
     (case snd f of
        Atom c # cur \<Rightarrow> parse ts (fst f, StarAtom c # cur) st
      | _ \<Rightarrow> None)"
| "parse (TQuest # ts) f st =
     (case snd f of
        [] \<Rightarrow> None
      | r # cur \<Rightarrow> parse ts (fst f, Alt r Eps # cur) st)"
| "parse (TOpen # ts) f st = parse ts ([], []) (f # st)"
| "parse (TClose # ts) f st =
     (case st of
        [] \<Rightarrow> None
      | g # st' \<Rightarrow> parse ts (fst g, close_frame f # snd g) st')"
| "parse (TBar # ts) f st = parse ts (fst f @ [mk_seq (rev (snd f))], []) st"

text \<open>\<open>new RegExp(src, flags)\<close>, with \<open>ic\<close> for the \<open>i\<close> flag. A leading \<open>^\<close> anchors the
  pattern; it is read only before a pattern with no alternation at top level, where it
  anchors the whole pattern.\<close>

definition RegExp :: "string \<Rightarrow> bool \<Rightarrow> regex option" where
  "RegExp src ic =
     (let anch = (src \<noteq> [] \<and> hd src = CHR ''^'');
          rest = (if anch then tl src else src)
      in case tokenize rest of
           None \<Rightarrow> None
         | Some ts \<Rightarrow>
             if anch \<and> TBar \<in> set ts then None
             else (case parse ts ([], []) [] of
                     None \<Rightarrow> None
                   | Some r \<Rightarrow>
                       Some \<lparr>re_source = src, re_ignoreCase = ic,
                             re_anchored = anch, re_body = r\<rparr>))"

section \<open>URL guard (\<open>browserSecurity\<close>)\<close>

definition DEFAULT_ALLOWED_PATTERNS :: "string list" where
  "DEFAULT_ALLOWED_PATTERNS =
     [''https://*.google.com'', ''https://www.google.com'', ''https://*.github.com'',
      ''https://github.com'', ''about:blank'', ''chrome://newtab'']"

definition BLOCKED_PATTERNS :: "string list" where
  "BLOCKED_PATTERNS =
     [''file://'', ''javascript:'', ''data:text/html'', ''chrome://extensions'',
      ''chrome://settings/passwords'']"

definition isBlockedUrl :: "string \<Rightarrow> bool" where
  "isBlockedUrl url =
     list_ex (\<lambda>pattern. startsWith (toLowerCase url) (toLowerCase pattern)) BLOCKED_PATTERNS"

text \<open>\<open>pattern.replace(/[.+?^${}()|[\]\\]/g, '\\$&')\<close> and \<open>escaped.replace(/\*/g, '.*')\<close>.\<close>

definition escape_except_star :: "string \<Rightarrow> string" where
  "escape_except_star s =
     concat (map (\<lambda>c. if c \<in> set (''.+?^${}()|[]'' @ [BS]) then [BS, c] else [c]) s)"

definition star_to_dot_star :: "string \<Rightarrow> string" where
  "star_to_dot_star s = concat (map (\<lambda>c. if c = CHR ''*'' then ''.*'' else [c]) s)"

definition patternToRegex :: "string \<Rightarrow> regex option" where
  "patternToRegex pattern =
     (let escaped = escape_except_star pattern;
          regexStr = star_to_dot_star escaped
      in RegExp (CHR ''^'' # regexStr) True)"

definition matchesAnyPattern :: "string \<Rightarrow> string list \<Rightarrow> bool" where
  "matchesAnyPattern url patterns =
     list_ex (\<lambda>pattern. case patternToRegex pattern of
                           Some regex \<Rightarrow> regex_test regex url
                         | None \<Rightarrow> False) patterns"

text \<open>Of the configuration only \<open>getBrowserAgentConfig().customConfig.allowedDomains\<close> is
  read; \<open>None\<close> is the absent field.\<close>

record BrowserAgentConfig =
  allowedDomains :: "string list option"

definition isUrlAllowed :: "string \<Rightarrow> BrowserAgentConfig \<Rightarrow> bool" where
  "isUrlAllowed url config =
     (if isBlockedUrl url then False
      else
        let userAllowedDomains = (case allowedDomains config of None \<Rightarrow> [] | Some ds \<Rightarrow> ds)
        in if length userAllowedDomains = 0 then True
           else matchesAnyPattern url (DEFAULT_ALLOWED_PATTERNS @ userAllowedDomains))"

text \<open>The reading of the allow check in the words of the specification: a pattern is
  matched case-insensitively at the start of the URL, and each \<open>*\<close> stands for a run of
  characters that satisfy \<open>wild\<close>.\<close>

fun wildcard_prefix_match :: "(char \<Rightarrow> bool) \<Rightarrow> string \<Rightarrow> string \<Rightarrow> bool" where
  "wildcard_prefix_match wild [] u = True"
| "wildcard_prefix_match wild (c # p) u =
     (if c = CHR ''*''
      then list_ex (\<lambda>k. list_all wild (take k u) \<and> wildcard_prefix_match wild p (drop k u))
             [0..<Suc (length u)]
      else (case u of [] \<Rightarrow> False
            | x # u' \<Rightarrow> canonicalize c = canonicalize x \<and> wildcard_prefix_match wild p u'))"

abbreviation any_character :: "char \<Rightarrow> bool" where
  "any_character \<equiv> (\<lambda>x. True)"

abbreviation not_line_terminator :: "char \<Rightarrow> bool" where
  "not_line_terminator \<equiv> (\<lambda>x. x \<noteq> LF \<and> x \<noteq> CR)"

text \<open>The tokens and the terms a URL pattern is read as, one step per character.\<close>

definition url_toks :: "string \<Rightarrow> tok list" where
  "url_toks p =
     concat (map (\<lambda>c. if c = CHR ''*'' then [TAtom AnyChar, TStar] else [TAtom (Lit c)]) p)"

definition url_items :: "string \<Rightarrow> rx list" where
  "url_items p = map (\<lambda>c. if c = CHR ''*'' then StarAtom AnyChar else Atom (Lit c)) p"

section \<open>Rate limiter (\<open>ActionRateLimiter\<close>)\<close>

text \<open>Time is \<open>Date.now()\<close>, an integer number of milliseconds, passed to each call.\<close>

record RateLimitConfig =
  maxActionsPerMinute :: int
  maxNavigationsPerMinute :: int

definition DEFAULT_RATE_LIMITS :: RateLimitConfig where
  "DEFAULT_RATE_LIMITS = \<lparr>maxActionsPerMinute = 60, maxNavigationsPerMinute = 10\<rparr>"

record ActionRateLimiter =
  actionTimestamps :: "int list"
  navigationTimestamps :: "int list"
  limits :: RateLimitConfig

definition new_ActionRateLimiter :: "RateLimitConfig \<Rightarrow> ActionRateLimiter" where
  "new_ActionRateLimiter l = \<lparr>actionTimestamps = [], navigationTimestamps = [], limits = l\<rparr>"

definition recordAction :: "int \<Rightarrow> ActionRateLimiter \<Rightarrow> bool \<times> ActionRateLimiter" where
  "recordAction now this =
     (let oneMinuteAgo = now - 60000;
          kept = filter (\<lambda>t. t > oneMinuteAgo) (actionTimestamps this)
      in if int (length kept) \<ge> maxActionsPerMinute (limits this)
         then (False, this\<lparr>actionTimestamps := kept\<rparr>)
         else (True, this\<lparr>actionTimestamps := kept @ [now]\<rparr>))"

definition recordNavigation :: "int \<Rightarrow> ActionRateLimiter \<Rightarrow> bool \<times> ActionRateLimiter" where
  "recordNavigation now this =
     (let oneMinuteAgo = now - 60000;
          kept = filter (\<lambda>t. t > oneMinuteAgo) (navigationTimestamps this)
      in if int (length kept) \<ge> maxNavigationsPerMinute (limits this)
         then (False, this\<lparr>navigationTimestamps := kept\<rparr>)
         else (True, this\<lparr>navigationTimestamps := kept @ [now]\<rparr>))"

definition reset :: "ActionRateLimiter \<Rightarrow> ActionRateLimiter" where
  "reset this = this\<lparr>actionTimestamps := [], navigationTimestamps := []\<rparr>"

text \<open>A run of calls, one at each of the given times: the results and the limiter left.\<close>

fun recordActions :: "int list \<Rightarrow> ActionRateLimiter \<Rightarrow> bool list \<times> ActionRateLimiter" where
  "recordActions [] this = ([], this)"
| "recordActions (now # rest) this =
     (let (ok, this') = recordAction now this;
          (oks, this'') = recordActions rest this'
      in (ok # oks, this''))"

fun recordNavigations :: "int list \<Rightarrow> ActionRateLimiter \<Rightarrow> bool list \<times> ActionRateLimiter" where
  "recordNavigations [] this = ([], this)"
| "recordNavigations (now # rest) this =
     (let (ok, this') = recordNavigation now this;
          (oks, this'') = recordNavigations rest this'
      in (ok # oks, this''))"

text \<open>The times of the calls of a run that were accepted.\<close>

definition accepted :: "int list \<Rightarrow> bool list \<Rightarrow> int list" where
  "accepted ts oks = map fst (filter snd (zip ts oks))"

section \<open>Overlay detection (\<open>overlayDetection\<close>)\<close>

record OverlayDetectionResult =
  hasOverlay :: bool
  overlayInfo :: string
  suggestedAction :: string

text \<open>The sources of the regular expression literals of \<open>OVERLAY_PATTERNS\<close>; each has
  the \<open>i\<close> flag.\<close>

definition OVERLAY_PATTERN_SOURCES :: "string list" where
  "OVERLAY_PATTERN_SOURCES =
     [''role='' @ [DQ] @ ''dialog'' @ [DQ],
      ''role='' @ [DQ] @ ''alertdialog'' @ [DQ],
      ''role='' @ [DQ] @ ''tooltip'' @ [DQ],
      ''aria-modal='' @ [DQ] @ ''true'' @ [DQ],
      ''cookie'' @ [BS] @ ''s*(banner|consent|notice|policy)'',
      ''accept'' @ [BS] @ ''s*all'' @ [BS] @ ''s*cookies'',
      ''we'' @ [BS] @ ''s*use'' @ [BS] @ ''s*cookies'',
      ''privacy'' @ [BS] @ ''s*settings'',
      ''newsletter'' @ [BS] @ ''s*(sign'' @ [BS] @ ''s*up|popup)'',
      ''subscribe'' @ [BS] @ ''s*to'',
      ''sign'' @ [BS] @ ''s*up'' @ [BS] @ ''s*for'',
      ''modal|popup|overlay|lightbox'',
      ''close'' @ [BS] @ ''s*(button|modal|dialog)'',
      ''dismiss|got'' @ [BS] @ ''s*it|no'' @ [BS] @ ''s*thanks|maybe'' @ [BS] @ ''s*later'']"

definition OVERLAY_PATTERNS :: "regex option list" where
  "OVERLAY_PATTERNS = map (\<lambda>src. RegExp src True) OVERLAY_PATTERN_SOURCES"

text \<open>The first loop of \<open>detectBlockingOverlays\<close>: the sources of the patterns that match.\<close>

fun overlaysFound :: "regex option list \<Rightarrow> string \<Rightarrow> string list" where
  "overlaysFound [] snapshot = []"
| "overlaysFound (None # patterns) snapshot = overlaysFound patterns snapshot"
| "overlaysFound (Some pattern # patterns) snapshot =
     (if regex_test pattern snapshot
      then re_source pattern # overlaysFound patterns snapshot
      else overlaysFound patterns snapshot)"

text \<open>
  The second loop collects the texts that \<open>CLOSE_BUTTON_PATTERNS\<close> match in the snapshot;
  those patterns use word boundaries and characters outside Latin-1, and the texts go to
  \<open>suggestedAction\<close> only. The loop is the parameter \<open>closeButtons\<close>.
\<close>

definition detectBlockingOverlays ::
    "(string \<Rightarrow> string list) \<Rightarrow> string \<Rightarrow> OverlayDetectionResult" where
  "detectBlockingOverlays closeButtons snapshot =
     (let found = overlaysFound OVERLAY_PATTERNS snapshot
      in if length found = 0
         then \<lparr>hasOverlay = False, overlayInfo = [], suggestedAction = []\<rparr>
         else
           \<lparr>hasOverlay = True,
            overlayInfo = ''Detected overlay patterns: '' @ join '', '' (take 3 found),
            suggestedAction =
              (if length (closeButtons snapshot) > 0
               then ''Found potential close buttons: ''
                    @ join '', '' (take 3 (closeButtons snapshot))
                    @ ''. Click one to dismiss the overlay.''
               else ''Look for a close button ('' @ [CHR 0xD7]
                    @ '', Close, Dismiss, Got it) and click it to dismiss the overlay.'')\<rparr>)"

definition wasActionBlockedByOverlay ::
    "(string \<Rightarrow> string list) \<Rightarrow> string \<Rightarrow> string \<Rightarrow> bool" where
  "wasActionBlockedByOverlay closeButtons beforeSnapshot afterSnapshot =
     (let beforeDetection = detectBlockingOverlays closeButtons beforeSnapshot;
          afterDetection = detectBlockingOverlays closeButtons afterSnapshot
      in if hasOverlay beforeDetection \<and> hasOverlay afterDetection
         then overlayInfo beforeDetection = overlayInfo afterDetection
         else False)"

section \<open>Entering plan mode (\<open>enter-plan-mode\<close>)\<close>

datatype js_error = Error string

text \<open>Modelled from the spec: the decisions and the modes (\<open>PolicyDecision\<close> and
  \<open>ApprovalMode\<close> are declared in \<open>policy/types\<close>, which is not among the sources):
  a decision is "ALLOW / DENY / ASK_USER", a mode is "a named operating restriction (e.g.,
  a read-only planning mode)"; the tool names the mode \<open>PLAN\<close> only.\<close>

datatype PolicyDecision = ALLOW | DENY | ASK_USER

datatype ApprovalMode = DEFAULT | AUTO_EDIT | YOLO | PLAN

text \<open>Modelled from the spec: the outcomes of a confirmation (\<open>ToolConfirmationOutcome\<close> is
  declared in \<open>tools/tools\<close>, which is not among the sources): "one of Proceed,
  ProceedAlways, Cancel".\<close>

datatype ToolConfirmationOutcome = Proceed | ProceedAlways | Cancel

record PolicyRule =
  toolName :: string
  argsPattern :: regex
  decision :: PolicyDecision
  priority :: int
  modes :: "ApprovalMode list"
  source :: string

text \<open>A call that changes the configuration; \<open>calls\<close> below lists them in order, as a
  mock of the configuration would.\<close>

datatype ConfigCall = SetApprovalMode ApprovalMode | AddPolicyRule PolicyRule

text \<open>The configuration as the tool uses it. \<open>validatePathAccess\<close> is the path-validation
  collaborator (\<open>None\<close> for \<open>null\<close>); \<open>cwd\<close> is the working directory of the process,
  which \<open>path.resolve\<close> reads when the target directory is relative.\<close>

record Config =
  getTargetDir :: string
  cwd :: string
  validatePathAccess :: "string \<Rightarrow> string option"
  approvalMode :: ApprovalMode
  policyRules :: "PolicyRule list"
  calls :: "ConfigCall list"

definition setApprovalMode :: "ApprovalMode \<Rightarrow> Config \<Rightarrow> Config" where
  "setApprovalMode m config =
     config\<lparr>approvalMode := m, calls := calls config @ [SetApprovalMode m]\<rparr>"

definition addPolicyRule :: "PolicyRule \<Rightarrow> Config \<Rightarrow> Config" where
  "addPolicyRule r config =
     config\<lparr>policyRules := policyRules config @ [r], calls := calls config @ [AddPolicyRule r]\<rparr>"

subsection \<open>\<open>path.resolve\<close> (POSIX) with two arguments\<close>

fun split_slash :: "string \<Rightarrow> string \<Rightarrow> string list" where
  "split_slash acc [] = [rev acc]"
| "split_slash acc (c # cs) =
     (if c = CHR ''/'' then rev acc # split_slash [] cs else split_slash (c # acc) cs)"

text \<open>The segments of an absolute path, read left to right: empty segments and \<open>.\<close> are
  dropped, \<open>..\<close> removes the segment before it (none at the root). \<open>stack\<close> holds the
  segments kept, last first.\<close>

fun normalize_segments :: "string list \<Rightarrow> string list \<Rightarrow> string list" where
  "normalize_segments stack [] = rev stack"
| "normalize_segments stack (seg # segs) =
     (if seg = [] \<or> seg = ''.'' then normalize_segments stack segs
      else if seg = ''..'' then normalize_segments (tl stack) segs
      else normalize_segments (seg # stack) segs)"

definition normalize_absolute :: "string \<Rightarrow> string" where
  "normalize_absolute p = CHR ''/'' # join ''/'' (normalize_segments [] (split_slash [] p))"

definition isAbsolute :: "string \<Rightarrow> bool" where
  "isAbsolute p = (p \<noteq> [] \<and> hd p = CHR ''/'')"

text \<open>The arguments are read from the right until an absolute one is met, empty ones are
  skipped, and the working directory (absolute) comes last.\<close>

definition path_resolve :: "string \<Rightarrow> string \<Rightarrow> string \<Rightarrow> string" where
  "path_resolve wd base p =
     (let r1 = (if p = [] then [] else p @ ''/'');
          r2 = (if isAbsolute p \<or> base = [] then r1 else base @ ''/'' @ r1);
          r3 = (if isAbsolute p \<or> isAbsolute base then r2 else wd @ ''/'' @ r2)
      in normalize_absolute r3)"

subsection \<open>The invocation\<close>

record EnterPlanModeParams =
  reason :: "string option"
  path :: "string option"
  allowed_tools :: "string list option"

text \<open>\<open>policyUpdates\<close> lists the calls of \<open>publishPolicyUpdate\<close>, a method of the base
  class (not among the sources) that sends to the message bus.\<close>

record EnterPlanModeInvocation =
  params :: EnterPlanModeParams
  toolName' :: string
  toolDisplayName :: string
  confirmationOutcome :: "ToolConfirmationOutcome option"
  policyUpdates :: "ToolConfirmationOutcome list"

record ToolResult =
  llmContent :: string
  returnDisplay :: string

record ToolInfoConfirmationDetails =
  type' :: string
  title :: string
  prompt :: string
  onConfirm :: "ToolConfirmationOutcome \<Rightarrow> EnterPlanModeInvocation \<Rightarrow> EnterPlanModeInvocation"

datatype ConfirmationRequest = NoConfirmation | Details ToolInfoConfirmationDetails

text \<open>A string in a condition: \<open>undefined\<close>, \<open>null\<close> and the empty string are false.\<close>

fun truthy :: "string option \<Rightarrow> bool" where
  "truthy None = False"
| "truthy (Some s) = (s \<noteq> [])"

record AbortSignal =
  aborted :: bool

definition onConfirm_callback ::
    "ToolConfirmationOutcome \<Rightarrow> EnterPlanModeInvocation \<Rightarrow> EnterPlanModeInvocation" where
  "onConfirm_callback outcome this =
     this\<lparr>confirmationOutcome := Some outcome, policyUpdates := policyUpdates this @ [outcome]\<rparr>"

text \<open>\<open>getMessageBusDecision\<close> belongs to the base class (not among the sources): it
  is the parameter \<open>getMessageBusDecision\<close>, from the abort signal to the decision. The
  result is the value returned or the error thrown, and the configuration after the call.\<close>

definition shouldConfirmExecute ::
    "(AbortSignal \<Rightarrow> PolicyDecision) \<Rightarrow> EnterPlanModeInvocation \<Rightarrow> AbortSignal \<Rightarrow> Config
       \<Rightarrow> (js_error + ConfirmationRequest) \<times> Config" where
  "shouldConfirmExecute getMessageBusDecision this abortSignal config =
     (let decision = getMessageBusDecision abortSignal
      in if decision = ALLOW then (Inr NoConfirmation, config)
         else if decision = DENY then
           (Inl (Error (''Tool execution for '' @ [DQ]
                        @ (if toolDisplayName this \<noteq> [] then toolDisplayName this
                           else toolName' this)
                        @ [DQ] @ '' denied by policy.'')), config)
         else
           (Inr (Details
              \<lparr>type' = ''info'', title = ''Enter Plan Mode'',
               prompt = ''This will restrict the agent to read-only tools to allow for safe planning.'',
               onConfirm = onConfirm_callback\<rparr>), config))"

text \<open>\<open>absolutePath.replace(/[.*+?^${}()|[\]\\]/g, '\\$&')\<close>.\<close>

definition escapeRegExp :: "string \<Rightarrow> string" where
  "escapeRegExp s =
     concat (map (\<lambda>c. if c \<in> set (''.*+?^${}()|[]'' @ [BS]) then [BS, c] else [c]) s)"

definition argsPattern_source :: "string \<Rightarrow> string" where
  "argsPattern_source escapedPath =
     [DQ] @ ''file_path'' @ [DQ] @ '':'' @ [DQ] @ escapedPath @ ''(?:/.*)?'' @ [DQ]"

text \<open>The loop over \<open>allowedTools\<close>; \<open>new RegExp\<close> throws on a pattern it cannot read.\<close>

fun addPlanModeRules :: "string \<Rightarrow> string list \<Rightarrow> Config \<Rightarrow> js_error option \<times> Config" where
  "addPlanModeRules escapedPath [] config = (None, config)"
| "addPlanModeRules escapedPath (tool # tools) config =
     (case RegExp (argsPattern_source escapedPath) False of
        None \<Rightarrow> (Some (Error ''Invalid regular expression''), config)
      | Some re \<Rightarrow>
          addPlanModeRules escapedPath tools
            (addPolicyRule
               \<lparr>toolName = tool, argsPattern = re, decision = ALLOW, priority = 80,
                modes = [PLAN], source = ''PlanMode''\<rparr> config))"

text \<open>The end of \<open>execute\<close>: the switch of mode and the message.\<close>

definition switchToPlanMode :: "EnterPlanModeInvocation \<Rightarrow> Config \<Rightarrow> ToolResult \<times> Config" where
  "switchToPlanMode this config =
     (let config' = setApprovalMode PLAN config;
          displayMessage =
            (case reason (params this) of
               Some r \<Rightarrow> if r \<noteq> [] then ''Switching to Plan mode: '' @ r
                        else ''Switching to Plan mode''
             | None \<Rightarrow> ''Switching to Plan mode'');
          displayMessage' =
            (case path (params this) of
               Some p \<Rightarrow> if p \<noteq> [] then displayMessage @ '' (Allowed path: '' @ p @ '')''
                        else displayMessage
             | None \<Rightarrow> displayMessage)
      in (\<lparr>llmContent =
             (case path (params this) of
                Some p \<Rightarrow> if p \<noteq> []
                         then ''Switching to Plan mode. Write access enabled for: '' @ p
                         else ''Switching to Plan mode.''
              | None \<Rightarrow> ''Switching to Plan mode.''),
           returnDisplay = displayMessage'\<rparr>, config'))"

definition execute ::
    "EnterPlanModeInvocation \<Rightarrow> Config \<Rightarrow> (js_error + ToolResult) \<times> Config" where
  "execute this config =
     (if confirmationOutcome this = Some Cancel then
        (Inr \<lparr>llmContent = ''User cancelled entering Plan Mode.'',
              returnDisplay = ''Cancelled''\<rparr>, config)
      else if truthy (path (params this)) then
        (let absolutePath =
               path_resolve (cwd config) (getTargetDir config)
                 (case path (params this) of Some p \<Rightarrow> p | None \<Rightarrow> []);
             validationError = validatePathAccess config absolutePath
         in if truthy validationError then
              (Inr \<lparr>llmContent =
                      ''Error: '' @ (case validationError of Some m \<Rightarrow> m | None \<Rightarrow> []),
                    returnDisplay = ''Error: Invalid path''\<rparr>, config)
            else
              (let escapedPath = escapeRegExp absolutePath;
                   allowedTools =
                     (case allowed_tools (params this) of
                        Some ts \<Rightarrow> ts
                      | None \<Rightarrow> [''write_file'', ''replace''])
               in case addPlanModeRules escapedPath allowedTools config of
                    (Some e, config') \<Rightarrow> (Inl e, config')
                  | (None, config') \<Rightarrow>
                      (let (result, config'') = switchToPlanMode this config'
                       in (Inr result, config''))))
      else
        (let (result, config') = switchToPlanMode this config
         in (Inr result, config')))"

text \<open>The serialized arguments the tests match a rule against:
  \<open>"file_path":"<p>"\<close>.\<close>

definition file_path_argument :: "string \<Rightarrow> string" where
  "file_path_argument p = [DQ] @ ''file_path'' @ [DQ] @ '':'' @ [DQ] @ p @ [DQ]"

text \<open>The terms the pattern of a rule is read as, for the absolute path \<open>P\<close>.\<close>

definition lits :: "string \<Rightarrow> rx list" where
  "lits s = map (\<lambda>c. Atom (Lit c)) s"

definition argsPattern_body :: "string \<Rightarrow> rx" where
  "argsPattern_body P =
     mk_seq (lits ([DQ] @ ''file_path'' @ [DQ] @ '':'' @ [DQ] @ P)
             @ [Alt (mk_seq [Atom (Lit (CHR ''/'')), StarAtom AnyChar]) Eps, Atom (Lit DQ)])"

section \<open>Browser action primitives (\<open>browserTools\<close>)\<close>

text \<open>
  The browser driver is not among the sources: it is a record of operations on a
  driver state \<open>'s\<close>, each of which returns the next state or the error it raises.
  Coordinates are real numbers (the rounding of floating point is not modelled), the
  waits on timers are left out, and \<open>show_number\<close> prints a number in a message.
\<close>

record viewport =
  width :: real
  height :: real

datatype script =
    ShowOverlay string
  | MoveMouse real real
  | ShowScrollIndicator string
  | AnimateClick
  | WindowInnerSize
  | ElementLabel real real

datatype js_value = Undefined | Null | Size viewport | Str string

record 's driver =
  getPage :: "'s \<Rightarrow> js_error + 's"
  page_url :: "'s \<Rightarrow> string"
  page_goto :: "string \<Rightarrow> 's \<Rightarrow> js_error + 's"
  page_viewportSize :: "'s \<Rightarrow> viewport option"
  page_evaluate :: "script \<Rightarrow> 's \<Rightarrow> js_error + js_value \<times> 's"
  mouse_click :: "real \<Rightarrow> real \<Rightarrow> 's \<Rightarrow> js_error + 's"
  mouse_move :: "real \<Rightarrow> real \<Rightarrow> 's \<Rightarrow> js_error + 's"
  mouse_down :: "'s \<Rightarrow> js_error + 's"
  mouse_up :: "'s \<Rightarrow> js_error + 's"
  mouse_wheel :: "real \<Rightarrow> real \<Rightarrow> 's \<Rightarrow> js_error + 's"
  keyboard_press :: "string \<Rightarrow> 's \<Rightarrow> js_error + 's"
  keyboard_type :: "string \<Rightarrow> 's \<Rightarrow> js_error + 's"
  show_number :: "real \<Rightarrow> string"

record BrowserToolResult =
  output' :: "string option"
  error' :: "string option"
  url' :: "string option"

text \<open>\<open>await\<close>: the error of a rejected step is the error of the whole call.\<close>

definition await :: "js_error + 'a \<Rightarrow> ('a \<Rightarrow> js_error + 'b) \<Rightarrow> js_error + 'b" where
  "await m f = (case m of Inl e \<Rightarrow> Inl e | Inr x \<Rightarrow> f x)"

definition run_script :: "'s driver \<Rightarrow> script \<Rightarrow> 's \<Rightarrow> js_error + 's" where
  "run_script d sc s = await (page_evaluate d sc s) (\<lambda>(v, s'). Inr s')"

definition showOverlay :: "'s driver \<Rightarrow> string \<Rightarrow> 's \<Rightarrow> js_error + 's" where
  "showOverlay d message s = run_script d (ShowOverlay message) s"

definition moveMouse :: "'s driver \<Rightarrow> real \<Rightarrow> real \<Rightarrow> 's \<Rightarrow> js_error + 's" where
  "moveMouse d x y s = run_script d (MoveMouse x y) s"

definition showScrollIndicator :: "'s driver \<Rightarrow> string \<Rightarrow> 's \<Rightarrow> js_error + 's" where
  "showScrollIndicator d direction s = run_script d (ShowScrollIndicator direction) s"

definition animateClick :: "'s driver \<Rightarrow> 's \<Rightarrow> js_error + 's" where
  "animateClick d s = run_script d AnimateClick s"

definition getViewportSize :: "'s driver \<Rightarrow> 's \<Rightarrow> js_error + viewport option \<times> 's" where
  "getViewportSize d s =
     (case page_viewportSize d s of
        Some v \<Rightarrow> Inr (Some v, s)
      | None \<Rightarrow>
          await (page_evaluate d WindowInnerSize s)
            (\<lambda>(v, s'). Inr (case v of Size vp \<Rightarrow> Some vp | _ \<Rightarrow> None, s')))"

definition getElementLabel ::
    "'s driver \<Rightarrow> real \<Rightarrow> real \<Rightarrow> 's \<Rightarrow> js_error + string option \<times> 's" where
  "getElementLabel d x y s =
     await (page_evaluate d (ElementLabel x y) s)
       (\<lambda>(v, s'). Inr (case v of Str l \<Rightarrow> Some l | _ \<Rightarrow> None, s'))"

definition viewport_not_available :: "'s driver \<Rightarrow> 's \<Rightarrow> BrowserToolResult" where
  "viewport_not_available d s =
     \<lparr>output' = None, error' = Some ''Viewport not available'', url' = Some (page_url d s)\<rparr>"

definition succeed :: "'s driver \<Rightarrow> string \<Rightarrow> 's \<Rightarrow> js_error + BrowserToolResult \<times> 's" where
  "succeed d message s =
     Inr (\<lparr>output' = Some message, error' = None, url' = Some (page_url d s)\<rparr>, s)"

definition navigate :: "'s driver \<Rightarrow> string \<Rightarrow> 's \<Rightarrow> js_error + BrowserToolResult \<times> 's" where
  "navigate d u s =
     await (getPage d s) (\<lambda>s.
     await (showOverlay d (''Navigating to '' @ u) s) (\<lambda>s.
     await (page_goto d u s) (\<lambda>s.
     succeed d (''Navigated to '' @ u) s)))"

definition clickAt :: "'s driver \<Rightarrow> real \<Rightarrow> real \<Rightarrow> 's \<Rightarrow> js_error + BrowserToolResult \<times> 's" where
  "clickAt d x y s =
     await (getPage d s) (\<lambda>s.
     await (getViewportSize d s) (\<lambda>(viewport, s).
       case viewport of
         None \<Rightarrow> Inr (viewport_not_available d s, s)
       | Some vp \<Rightarrow>
           (let actualX = (x / 1000) * width vp; actualY = (y / 1000) * height vp
            in await (moveMouse d actualX actualY s) (\<lambda>s.
               await (getElementLabel d actualX actualY s) (\<lambda>(label, s).
               await (showOverlay d
                        (if truthy label
                         then ''Clicking '' @ [DQ] @ (case label of Some l \<Rightarrow> l | None \<Rightarrow> []) @ [DQ]
                         else ''Clicking at '' @ show_number d x @ '', '' @ show_number d y) s) (\<lambda>s.
               await (mouse_click d actualX actualY s) (\<lambda>s.
               await (animateClick d s) (\<lambda>s.
               succeed d ''Clicked'' s))))))))"

definition typeTextAt ::
    "'s driver \<Rightarrow> real \<Rightarrow> real \<Rightarrow> string \<Rightarrow> bool \<Rightarrow> bool \<Rightarrow> 's
       \<Rightarrow> js_error + BrowserToolResult \<times> 's" where
  "typeTextAt d x y text pressEnter clearBeforeTyping s =
     await (getPage d s) (\<lambda>s.
     await (getViewportSize d s) (\<lambda>(viewport, s).
       case viewport of
         None \<Rightarrow> Inr (viewport_not_available d s, s)
       | Some vp \<Rightarrow>
           (let actualX = (x / 1000) * width vp; actualY = (y / 1000) * height vp
            in await (moveMouse d actualX actualY s) (\<lambda>s.
               await (getElementLabel d actualX actualY s) (\<lambda>(label, s).
               await (showOverlay d
                        (if truthy label
                         then ''Typing '' @ [DQ] @ text @ [DQ] @ '' into ''
                              @ (case label of Some l \<Rightarrow> l | None \<Rightarrow> [])
                         else ''Typing '' @ [DQ] @ text @ [DQ] @ '' at ''
                              @ show_number d x @ '', '' @ show_number d y) s) (\<lambda>s.
               await (mouse_click d actualX actualY s) (\<lambda>s.
               await (animateClick d s) (\<lambda>s.
               await (if clearBeforeTyping
                      then await (keyboard_press d ''Control+A'' s) (keyboard_press d ''Backspace'')
                      else Inr s) (\<lambda>s.
               await (keyboard_type d text s) (\<lambda>s.
               await (if pressEnter then keyboard_press d ''Enter'' s else Inr s) (\<lambda>s.
               succeed d (''Typed '' @ [DQ] @ text @ [DQ]) s)))))))))))"

definition scrollDocument ::
    "'s driver \<Rightarrow> string \<Rightarrow> real \<Rightarrow> 's \<Rightarrow> js_error + BrowserToolResult \<times> 's" where
  "scrollDocument d direction amount s =
     await (getPage d s) (\<lambda>s.
     await (showScrollIndicator d direction s) (\<lambda>s.
     await (showOverlay d (''Scrolling '' @ direction) s) (\<lambda>s.
       (let deltaY = (if direction = ''down'' then amount
                      else if direction = ''up'' then - amount else 0);
            deltaX = (if direction = ''right'' then amount
                      else if direction = ''left'' then - amount else 0)
        in await (mouse_wheel d deltaX deltaY s) (\<lambda>s.
           succeed d (''Scrolled '' @ direction @ '' by '' @ show_number d amount) s)))))"

definition dragAndDrop ::
    "'s driver \<Rightarrow> real \<Rightarrow> real \<Rightarrow> real \<Rightarrow> real \<Rightarrow> 's \<Rightarrow> js_error + BrowserToolResult \<times> 's" where
  "dragAndDrop d x y destX destY s =
     (let message = show_number d x @ '','' @ show_number d y @ '' to ''
                    @ show_number d destX @ '','' @ show_number d destY
      in await (getPage d s) (\<lambda>s.
         await (showOverlay d (''Dragging from '' @ message) s) (\<lambda>s.
         await (getViewportSize d s) (\<lambda>(viewport, s).
           case viewport of
             None \<Rightarrow> Inr (viewport_not_available d s, s)
           | Some vp \<Rightarrow>
               (let actualX = (x / 1000) * width vp; actualY = (y / 1000) * height vp;
                    actualDestX = (destX / 1000) * width vp;
                    actualDestY = (destY / 1000) * height vp
                in await (moveMouse d actualX actualY s) (\<lambda>s.
                   await (mouse_move d actualX actualY s) (\<lambda>s.
                   await (animateClick d s) (\<lambda>s.
                   await (mouse_down d s) (\<lambda>s.
                   await (moveMouse d actualDestX actualDestY s) (\<lambda>s.
                   await (mouse_move d actualDestX actualDestY s) (\<lambda>s.
                   await (mouse_up d s) (\<lambda>s.
                   await (animateClick d s) (\<lambda>s.
                   succeed d (''Dragged from '' @ message) s)))))))))))))"

definition pagedown :: "'s driver \<Rightarrow> 's \<Rightarrow> js_error + BrowserToolResult \<times> 's" where
  "pagedown d s =
     await (getPage d s) (\<lambda>s.
     await (showOverlay d ''Pressing PageDown'' s) (\<lambda>s.
     await (keyboard_press d ''PageDown'' s) (\<lambda>s.
     succeed d ''Pressed PageDown'' s)))"

definition pageup :: "'s driver \<Rightarrow> 's \<Rightarrow> js_error + BrowserToolResult \<times> 's" where
  "pageup d s =
     await (getPage d s) (\<lambda>s.
     await (showOverlay d ''Pressing PageUp'' s) (\<lambda>s.
     await (keyboard_press d ''PageUp'' s) (\<lambda>s.
     succeed d ''Pressed PageUp'' s)))"

definition keyCombination :: "'s driver \<Rightarrow> string \<Rightarrow> 's \<Rightarrow> js_error + BrowserToolResult \<times> 's" where
  "keyCombination d keys s =
     await (getPage d s) (\<lambda>s.
     await (showOverlay d (''Pressing '' @ keys) s) (\<lambda>s.
     await (keyboard_press d keys s) (\<lambda>s.
     succeed d (''Pressed '' @ keys) s)))"

definition openWebBrowser :: "'s driver \<Rightarrow> 's \<Rightarrow> js_error + BrowserToolResult \<times> 's" where
  "openWebBrowser d s = await (getPage d s) (\<lambda>s. succeed d ''Browser opened'' s)"

text \<open>A driver whose page opens and whose every other operation works, but on which
  \<open>page.goto\<close> is rejected; the state is the URL of the page.\<close>

definition unreachable_driver :: "string driver" where
  "unreachable_driver =
     \<lparr>getPage = Inr, page_url = (\<lambda>s. s),
      page_goto = (\<lambda>u s. Inl (Error ''net::ERR_NAME_NOT_RESOLVED'')),
      page_viewportSize = (\<lambda>s. Some \<lparr>width = 1000, height = 800\<rparr>),
      page_evaluate = (\<lambda>sc s. Inr (Undefined, s)),
      mouse_click = (\<lambda>x y. Inr), mouse_move = (\<lambda>x y. Inr), mouse_down = Inr, mouse_up = Inr,
      mouse_wheel = (\<lambda>x y. Inr), keyboard_press = (\<lambda>k. Inr), keyboard_type = (\<lambda>t. Inr),
      show_number = (\<lambda>r. [])\<rparr>"

text \<open>A driver with no browser to connect to, and one whose page has no viewport.\<close>

definition disconnected_driver :: "string driver" where
  "disconnected_driver = unreachable_driver\<lparr>getPage := (\<lambda>s. Inl (Error ''Browser closed''))\<rparr>"

definition headless_driver :: "string driver" where
  "headless_driver =
     unreachable_driver\<lparr>page_viewportSize := (\<lambda>s. None),
                        page_evaluate := (\<lambda>sc s. Inr (Null, s))\<rparr>"

text \<open>A driver whose keyboard rejects every key press.\<close>

definition stuck_keyboard_driver :: "string driver" where
  "stuck_keyboard_driver =
     unreachable_driver\<lparr>keyboard_press := (\<lambda>k s. Inl (Error ''Target closed''))\<rparr>"

text \<open>The errors a driver can raise: those of its operations that can be rejected.\<close>

definition driver_raises :: "'s driver \<Rightarrow> js_error \<Rightarrow> bool" where
  "driver_raises d e =
     ((\<exists>s. getPage d s = Inl e) \<or> (\<exists>u s. page_goto d u s = Inl e)
      \<or> (\<exists>sc s. page_evaluate d sc s = Inl e)
      \<or> (\<exists>x y s. mouse_click d x y s = Inl e) \<or> (\<exists>x y s. mouse_move d x y s = Inl e)
      \<or> (\<exists>s. mouse_down d s = Inl e) \<or> (\<exists>s. mouse_up d s = Inl e)
      \<or> (\<exists>x y s. mouse_wheel d x y s = Inl e)
      \<or> (\<exists>k s. keyboard_press d k s = Inl e) \<or> (\<exists>t s. keyboard_type d t s = Inl e))"

subsection \<open>The tool that runs the browser agent (\<open>BrowserToolInvocation\<close>)\<close>

text \<open>The agent and its loop are not among the sources: \<open>runTask\<close> is the outcome of
  \<open>agent.runTask\<close>, the text it returns or the error it throws. The function is the
  \<open>try\<close> block of \<open>execute\<close> and its \<open>catch\<close>; the statements before the block, which
  build the agent, are left out.\<close>

record BrowserToolOutcome =
  bt_llmContent :: string
  bt_returnDisplay :: string
  bt_error :: "string option"

definition browserTool_execute :: "js_error + string \<Rightarrow> BrowserToolOutcome" where
  "browserTool_execute runTask =
     (case runTask of
        Inr result \<Rightarrow>
          \<lparr>bt_llmContent = (if result \<noteq> [] then result else ''Task completed''),
           bt_returnDisplay = (if result \<noteq> [] then result else ''Task completed''),
           bt_error = None\<rparr>
      | Inl (Error message) \<Rightarrow>
          \<lparr>bt_llmContent = ''Error: '' @ message,
           bt_returnDisplay = ''Error: '' @ message,
           bt_error = Some message\<rparr>)"

section \<open>Notions and inputs used to state the claims\<close>

text \<open>"The URL case-insensitively starts with the prefix".\<close>

definition starts_with_ignoring_case :: "string \<Rightarrow> string \<Rightarrow> bool" where
  "starts_with_ignoring_case u p = (take (length p) (toLowerCase u) = toLowerCase p)"

text \<open>The invocation and the configuration of the tests of the tool: the target directory
  is \<open>/app\<close>.\<close>

definition example_invocation :: "EnterPlanModeParams \<Rightarrow> EnterPlanModeInvocation" where
  "example_invocation ps =
     \<lparr>params = ps, toolName' = ''enter_plan_mode'', toolDisplayName = ''Enter Plan Mode'',
      confirmationOutcome = None, policyUpdates = []\<rparr>"

definition example_config :: "(string \<Rightarrow> string option) \<Rightarrow> Config" where
  "example_config validate =
     \<lparr>getTargetDir = ''/app'', cwd = ''/'', validatePathAccess = validate,
      approvalMode = DEFAULT, policyRules = [], calls = []\<rparr>"

definition dialog_snapshot :: string where
  "dialog_snapshot = ''div role='' @ [DQ] @ ''dialog'' @ [DQ] @ '' button Close''"

definition clean_snapshot :: string where
  "clean_snapshot = ''main h1 Welcome''"

text \<open>What \<open>recordAction\<close> and \<open>recordNavigation\<close> both do to their window of
  timestamps, and a run of it: the two methods differ in the window and the limit only
  (lemmas \<open>recordAction_window_step\<close> and \<open>recordNavigation_window_step\<close> below).\<close>

definition window_step :: "int \<Rightarrow> int \<Rightarrow> int list \<Rightarrow> bool \<times> int list" where
  "window_step limit now w =
     (let kept = filter (\<lambda>t. t > now - 60000) w
      in if int (length kept) \<ge> limit then (False, kept) else (True, kept @ [now]))"

fun window_run :: "int \<Rightarrow> int list \<Rightarrow> int list \<Rightarrow> bool list \<times> int list" where
  "window_run limit [] w = ([], w)"
| "window_run limit (now # rest) w =
     (let (ok, w') = window_step limit now w;
          (oks, w'') = window_run limit rest w'
      in (ok # oks, w''))"

text \<open>The limiter of the tests: two actions and one navigation a minute.\<close>

definition test_limiter :: ActionRateLimiter where
  "test_limiter = new_ActionRateLimiter \<lparr>maxActionsPerMinute = 2, maxNavigationsPerMinute = 1\<rparr>"

text \<open>The rule that \<open>execute\<close> adds for a tool, with the pattern as it is parsed (lemma
  \<open>RegExp_argsPattern\<close> below), and the tokens its source is read as.\<close>

definition plan_mode_rule :: "string \<Rightarrow> string \<Rightarrow> PolicyRule" where
  "plan_mode_rule P tool =
     \<lparr>toolName = tool,
      argsPattern = \<lparr>re_source = argsPattern_source (escapeRegExp P), re_ignoreCase = False,
                     re_anchored = False, re_body = argsPattern_body P\<rparr>,
      decision = ALLOW, priority = 80, modes = [PLAN], source = ''PlanMode''\<rparr>"

definition args_toks :: "string \<Rightarrow> tok list" where
  "args_toks P =
     map (\<lambda>c. TAtom (Lit c)) ([DQ] @ ''file_path'' @ [DQ] @ '':'' @ [DQ] @ P)
     @ [TOpen, TAtom (Lit (CHR ''/'')), TAtom AnyChar, TStar, TClose, TQuest, TAtom (Lit DQ)]"

definition tail_rx :: "rx list" where
  "tail_rx = [Alt (mk_seq [Atom (Lit (CHR ''/'')), StarAtom AnyChar]) Eps, Atom (Lit DQ)]"

text \<open>What stands before the path in the serialized arguments and in the pattern.\<close>

definition file_path_prefix :: string where
  "file_path_prefix = [DQ] @ ''file_path'' @ [DQ] @ '':'' @ [DQ]"

text \<open>The number of double quotes in a string.\<close>

abbreviation quotes :: "string \<Rightarrow> nat" where
  "quotes s \<equiv> length (filter (\<lambda>c. c = DQ) s)"

text \<open>The offsets at which a text occurs in a string.\<close>

definition occurrences :: "string \<Rightarrow> string \<Rightarrow> nat list" where
  "occurrences sub s = filter (\<lambda>k. prefix sub (drop k s)) [0..<Suc (length s)]"

text \<open>The directory grant of the tests, and the URL guard configured with one pattern.\<close>

definition feature_invocation :: EnterPlanModeInvocation where
  "feature_invocation =
     example_invocation
       \<lparr>reason = None, path = Some ''conductor/tracks/feature-1'', allowed_tools = None\<rparr>"

definition test_org_config :: BrowserAgentConfig where
  "test_org_config = \<lparr>allowedDomains = Some [''https://*.test.org'']\<rparr>"

definition two_line_url :: string where
  "two_line_url = ''https://a'' @ [LF] @ ''b.test.org''"

text \<open>Serialized arguments of a call whose \<open>file_path\<close> is a sibling of the granted
  directory: with the content of the file, and with the granted directory under another
  key.\<close>

definition sibling_arguments :: string where
  "sibling_arguments =
     ''{'' @ file_path_argument ''/app/conductor/tracks/feature-1-secrets''
     @ '','' @ [DQ] @ ''content'' @ [DQ] @ '':'' @ [DQ] @ ''x'' @ [DQ] @ ''}''"

definition nested_arguments :: string where
  "nested_arguments =
     ''{'' @ file_path_argument ''/app/conductor/tracks/feature-1-secrets''
     @ '','' @ [DQ] @ ''origin'' @ [DQ] @ '':{''
     @ file_path_argument ''/app/conductor/tracks/feature-1'' @ ''}}''"

section \<open>The case mappings, checked against their arithmetic reading\<close>

lemma toLowerCase_char_arith:
  "(let n = (of_char c :: nat)
    in if (65 \<le> n \<and> n \<le> 90) \<or> (192 \<le> n \<and> n \<le> 222 \<and> n \<noteq> 215)
       then char_of (n + 32) else c) = toLowerCase_char c"
proof (cases c)
  case (Char b0 b1 b2 b3 b4 b5 b6 b7)
  show ?thesis unfolding Char
    by (cases b0; cases b1; cases b2; cases b3; cases b4; cases b5; cases b6; cases b7;
        simp add: char_of_eq_iff letter_index_def)
qed

lemma canonicalize_arith:
  "(let n = (of_char c :: nat)
    in if (97 \<le> n \<and> n \<le> 122) \<or> (224 \<le> n \<and> n \<le> 254 \<and> n \<noteq> 247)
       then char_of (n - 32) else c) = canonicalize c"
proof (cases c)
  case (Char b0 b1 b2 b3 b4 b5 b6 b7)
  show ?thesis unfolding Char
    by (cases b0; cases b1; cases b2; cases b3; cases b4; cases b5; cases b6; cases b7;
        simp add: char_of_eq_iff letter_index_def)
qed

section \<open>Confirmation and cancellation of the plan-mode tool\<close>

text \<open>
  Claim C1. Once the confirmation was resolved with \<open>Cancel\<close> (the callback \<open>onConfirm\<close>
  of the request was called with it), \<open>execute\<close> returns the cancellation result
  (\<open>returnDisplay\<close> is \<open>Cancelled\<close>, \<open>llmContent\<close> says the user cancelled) and leaves the
  configuration as it was: no call of \<open>setApprovalMode\<close> or \<open>addPolicyRule\<close>, whatever
  the parameters, a path included.
\<close>

theorem cancelled_confirmation_has_no_effect:
  "execute (onConfirm_callback Cancel this) config =
     (Inr \<lparr>llmContent = ''User cancelled entering Plan Mode.'', returnDisplay = ''Cancelled''\<rparr>,
      config)
   \<and> calls (snd (execute (onConfirm_callback Cancel this) config)) = calls config
   \<and> policyRules (snd (execute (onConfirm_callback Cancel this) config)) = policyRules config
   \<and> approvalMode (snd (execute (onConfirm_callback Cancel this) config)) = approvalMode config"
  by (simp add: execute_def onConfirm_callback_def)

text \<open>
  Claim C2. For every invocation and abort signal the result of \<open>shouldConfirmExecute\<close>
  follows the policy decision alone: \<open>ALLOW\<close> gives \<open>false\<close>; \<open>DENY\<close> raises the
  policy-denial error; \<open>ASK_USER\<close> gives a request of type \<open>info\<close> with the title
  \<open>Enter Plan Mode\<close>, the prompt and a callback that records the outcome. In each case
  the configuration is left as it was.
\<close>

theorem confirmation_follows_policy_decision:
  "(let r = shouldConfirmExecute bus this abortSignal config in
   (bus abortSignal = ALLOW \<longrightarrow> r = (Inr NoConfirmation, config))
   \<and> (bus abortSignal = DENY \<longrightarrow>
        r = (Inl (Error (''Tool execution for '' @ [DQ]
                         @ (if toolDisplayName this \<noteq> [] then toolDisplayName this
                            else toolName' this)
                         @ [DQ] @ '' denied by policy.'')), config))
   \<and> (bus abortSignal = ASK_USER \<longrightarrow>
        (\<exists>d. r = (Inr (Details d), config) \<and> type' d = ''info'' \<and> title d = ''Enter Plan Mode''
             \<and> prompt d =
                 ''This will restrict the agent to read-only tools to allow for safe planning.''
             \<and> (\<forall>outcome inv. confirmationOutcome (onConfirm d outcome inv) = Some outcome)))
   \<and> snd r = config)"
  by (cases "bus abortSignal") (simp_all add: shouldConfirmExecute_def onConfirm_callback_def)

theorem confirmation_follows_policy_decision_witness:
  "fst (shouldConfirmExecute (\<lambda>s. ALLOW)
          (example_invocation \<lparr>reason = None, path = None, allowed_tools = None\<rparr>)
          \<lparr>aborted = False\<rparr> (example_config (\<lambda>p. None))) = Inr NoConfirmation
   \<and> fst (shouldConfirmExecute (\<lambda>s. DENY)
          (example_invocation \<lparr>reason = None, path = None, allowed_tools = None\<rparr>)
          \<lparr>aborted = False\<rparr> (example_config (\<lambda>p. None)))
       = Inl (Error (''Tool execution for '' @ [DQ] @ ''Enter Plan Mode'' @ [DQ]
                     @ '' denied by policy.''))
   \<and> (\<exists>d. fst (shouldConfirmExecute (\<lambda>s. ASK_USER)
          (example_invocation \<lparr>reason = None, path = None, allowed_tools = None\<rparr>)
          \<lparr>aborted = True\<rparr> (example_config (\<lambda>p. None))) = Inr (Details d)
        \<and> title d = ''Enter Plan Mode'')"
  using confirmation_follows_policy_decision
          [of "\<lambda>s. ALLOW"
              "example_invocation \<lparr>reason = None, path = None, allowed_tools = None\<rparr>"
              "\<lparr>aborted = False\<rparr>" "example_config (\<lambda>p. None)"]
        confirmation_follows_policy_decision
          [of "\<lambda>s. DENY"
              "example_invocation \<lparr>reason = None, path = None, allowed_tools = None\<rparr>"
              "\<lparr>aborted = False\<rparr>" "example_config (\<lambda>p. None)"]
        confirmation_follows_policy_decision
          [of "\<lambda>s. ASK_USER"
              "example_invocation \<lparr>reason = None, path = None, allowed_tools = None\<rparr>"
              "\<lparr>aborted = True\<rparr>" "example_config (\<lambda>p. None)"]
  by (auto simp: example_invocation_def Let_def)

text \<open>
  Claim C4. When the confirmation was not cancelled and the path-validation collaborator
  returns an error message for the resolved absolute path of the path parameter,
  \<open>execute\<close> returns (it does not throw) the result with \<open>llmContent\<close>
  \<open>Error: <message>\<close> and \<open>returnDisplay\<close> \<open>Error: Invalid path\<close>, and the configuration is
  as it was: no rule was added and the mode was not switched. (After a cancellation the
  collaborator is not called at all; an empty path or an empty message counts as none
  in the conditions of the code.)
\<close>

theorem invalid_path_is_reported_without_effect:
  assumes "confirmationOutcome this \<noteq> Some Cancel"
      and "path (params this) = Some p" and "p \<noteq> []"
      and "validatePathAccess config (path_resolve (cwd config) (getTargetDir config) p)
             = Some message"
      and "message \<noteq> []"
  shows "execute this config =
           (Inr \<lparr>llmContent = ''Error: '' @ message, returnDisplay = ''Error: Invalid path''\<rparr>,
            config)"
  using assms by (simp add: execute_def)

theorem invalid_path_is_reported_without_effect_witness:
  "execute (example_invocation
              \<lparr>reason = None, path = Some ''/forbidden/path'', allowed_tools = None\<rparr>)
           (example_config (\<lambda>p. Some ''Access denied''))
     = (Inr \<lparr>llmContent = ''Error: Access denied'', returnDisplay = ''Error: Invalid path''\<rparr>,
        example_config (\<lambda>p. Some ''Access denied''))"
  using invalid_path_is_reported_without_effect
          [of "example_invocation
                 \<lparr>reason = None, path = Some ''/forbidden/path'', allowed_tools = None\<rparr>"
              "''/forbidden/path''" "example_config (\<lambda>p. Some ''Access denied'')"
              "''Access denied''"]
  by (simp add: example_invocation_def example_config_def)

section \<open>The URL guard\<close>

lemma prefix_take_iff: "prefix p s = (take (length p) s = p)"
  by (metis append_eq_conv_conj prefix_def append_take_drop_id)

lemma isBlockedUrl_iff:
  "isBlockedUrl u = (\<exists>p \<in> set BLOCKED_PATTERNS. starts_with_ignoring_case u p)"
  by (simp add: isBlockedUrl_def list_ex_iff startsWith_def starts_with_ignoring_case_def
      prefix_take_iff toLowerCase_def)

text \<open>
  Claim C5. A URL that case-insensitively starts with one of the fixed blocked prefixes
  (\<open>file://\<close>, \<open>javascript:\<close>, \<open>data:text/html\<close>, \<open>chrome://extensions\<close>,
  \<open>chrome://settings/passwords\<close>) is not allowed, whatever the configuration and its
  \<open>allowedDomains\<close>; in particular \<open>file:///etc/passwd\<close> is never allowed.
\<close>

theorem blocked_prefix_is_always_rejected:
  "(p \<in> {''file://'', ''javascript:'', ''data:text/html'', ''chrome://extensions'',
          ''chrome://settings/passwords''}
      \<longrightarrow> starts_with_ignoring_case u p \<longrightarrow> \<not> isUrlAllowed u config)
   \<and> \<not> isUrlAllowed ''file:///etc/passwd'' config"
proof -
  have "\<not> isUrlAllowed v config"
    if "q \<in> set BLOCKED_PATTERNS" "starts_with_ignoring_case v q" for v q
    using that isBlockedUrl_iff [of v] by (auto simp: isUrlAllowed_def)
  moreover have "starts_with_ignoring_case ''file:///etc/passwd'' ''file://''"
    by code_simp
  ultimately show ?thesis
    by (auto simp: BLOCKED_PATTERNS_def)
qed

theorem blocked_prefix_is_always_rejected_witness:
  "starts_with_ignoring_case ''JavaScript:alert(1)'' ''javascript:''
   \<and> \<not> isUrlAllowed ''JavaScript:alert(1)'' \<lparr>allowedDomains = Some [''*'']\<rparr>"
proof -
  have h: "starts_with_ignoring_case ''JavaScript:alert(1)'' ''javascript:''"
    by code_simp
  have "\<not> isUrlAllowed ''JavaScript:alert(1)'' \<lparr>allowedDomains = Some [''*'']\<rparr>"
    using blocked_prefix_is_always_rejected
            [of "''javascript:''" "''JavaScript:alert(1)''"
                "\<lparr>allowedDomains = Some [''*'']\<rparr>"] h
    by simp
  with h show ?thesis by simp
qed

section \<open>Overlay detection\<close>

lemma found_dialog:
  "overlaysFound OVERLAY_PATTERNS dialog_snapshot = [''role='' @ [DQ] @ ''dialog'' @ [DQ]]"
  by code_simp

lemma found_clean: "overlaysFound OVERLAY_PATTERNS clean_snapshot = []"
  by code_simp

text \<open>
  Claim C9. For every pair of snapshots, \<open>wasActionBlockedByOverlay\<close> is true exactly when
  an overlay is detected in both and the two \<open>overlayInfo\<close> strings are equal; in
  particular it is false when no overlay is detected in the snapshot taken after. The
  \<open>overlayInfo\<close> of a detection is made of the sources of the first three patterns that
  match.
\<close>

theorem overlay_blocks_iff_same_signature:
  "wasActionBlockedByOverlay cb before after =
     (hasOverlay (detectBlockingOverlays cb before)
      \<and> hasOverlay (detectBlockingOverlays cb after)
      \<and> overlayInfo (detectBlockingOverlays cb before)
          = overlayInfo (detectBlockingOverlays cb after))
   \<and> (\<not> hasOverlay (detectBlockingOverlays cb after)
        \<longrightarrow> \<not> wasActionBlockedByOverlay cb before after)
   \<and> hasOverlay (detectBlockingOverlays cb before)
        = (overlaysFound OVERLAY_PATTERNS before \<noteq> [])
   \<and> overlayInfo (detectBlockingOverlays cb before)
        = (if overlaysFound OVERLAY_PATTERNS before = [] then []
           else ''Detected overlay patterns: ''
                @ join '', '' (take 3 (overlaysFound OVERLAY_PATTERNS before)))"
  by (simp add: wasActionBlockedByOverlay_def detectBlockingOverlays_def Let_def)

theorem overlay_blocks_iff_same_signature_witness:
  "\<not> hasOverlay (detectBlockingOverlays (\<lambda>s. []) clean_snapshot)
   \<and> \<not> wasActionBlockedByOverlay (\<lambda>s. []) dialog_snapshot clean_snapshot
   \<and> wasActionBlockedByOverlay (\<lambda>s. []) dialog_snapshot dialog_snapshot"
  using overlay_blocks_iff_same_signature [of "\<lambda>s. []" dialog_snapshot clean_snapshot]
        overlay_blocks_iff_same_signature [of "\<lambda>s. []" dialog_snapshot dialog_snapshot]
        overlay_blocks_iff_same_signature [of "\<lambda>s. []" clean_snapshot clean_snapshot]
  by (simp add: found_dialog found_clean)

section \<open>The rate limiter\<close>

lemma recordAction_window_step:
  "recordAction now l =
     (fst (window_step (maxActionsPerMinute (limits l)) now (actionTimestamps l)),
      l\<lparr>actionTimestamps :=
           snd (window_step (maxActionsPerMinute (limits l)) now (actionTimestamps l))\<rparr>)"
  by (simp add: recordAction_def window_step_def Let_def)

lemma recordNavigation_window_step:
  "recordNavigation now l =
     (fst (window_step (maxNavigationsPerMinute (limits l)) now (navigationTimestamps l)),
      l\<lparr>navigationTimestamps :=
           snd (window_step (maxNavigationsPerMinute (limits l)) now (navigationTimestamps l))\<rparr>)"
  by (simp add: recordNavigation_def window_step_def Let_def)

lemma recordActions_window_run:
  "recordActions ts l =
     (fst (window_run (maxActionsPerMinute (limits l)) ts (actionTimestamps l)),
      l\<lparr>actionTimestamps :=
           snd (window_run (maxActionsPerMinute (limits l)) ts (actionTimestamps l))\<rparr>)"
proof (induction ts arbitrary: l)
  case Nil
  show ?case by simp
next
  case (Cons now rest)
  show ?case
    by (simp add: Cons.IH recordAction_window_step split_beta)
qed

lemma recordNavigations_window_run:
  "recordNavigations ts l =
     (fst (window_run (maxNavigationsPerMinute (limits l)) ts (navigationTimestamps l)),
      l\<lparr>navigationTimestamps :=
           snd (window_run (maxNavigationsPerMinute (limits l)) ts (navigationTimestamps l))\<rparr>)"
proof (induction ts arbitrary: l)
  case Nil
  show ?case by simp
next
  case (Cons now rest)
  show ?case
    by (simp add: Cons.IH recordNavigation_window_step split_beta)
qed

lemma accepted_Cons:
  "accepted (x # ts) (b # oks) = (if b then x # accepted ts oks else accepted ts oks)"
  by (simp add: accepted_def)

lemma accepted_Nil [simp]: "accepted [] oks = []"
  by (simp add: accepted_def)

lemma window_step_count:
  assumes "now \<le> c + 60000"
  shows "length (filter (\<lambda>t. t > c) (snd (window_step limit now w))) =
           length (filter (\<lambda>t. t > c) w)
           + (if fst (window_step limit now w) \<and> now > c then 1 else 0)"
proof -
  have "filter (\<lambda>t. t > c) (filter (\<lambda>t. t > now - 60000) w) = filter (\<lambda>t. t > c) w"
    using assms by (induction w) auto
  then have "length (filter (\<lambda>t. t > c) (filter (\<lambda>t. t > now - 60000) w))
               = length (filter (\<lambda>t. t > c) w)"
    by (rule arg_cong)
  then show ?thesis
    by (simp add: window_step_def Let_def del: filter_filter)
qed

lemma window_step_bound:
  "length (filter P (snd (window_step limit now w))) \<le>
     length (filter P w) + (if fst (window_step limit now w) \<and> P now then 1 else 0)"
proof -
  have "length (filter P (filter (\<lambda>t. t > now - 60000) w)) \<le> length (filter P w)"
    by (induction w) auto
  then show ?thesis
    by (simp add: window_step_def Let_def del: filter_filter)
qed

text \<open>Calls no later than \<open>c + 60s\<close> keep every entry after \<open>c\<close>, and add the accepted ones.\<close>

lemma window_run_count:
  "\<forall>x\<in>set ts. x \<le> c + 60000 \<Longrightarrow>
   length (filter (\<lambda>t. t > c) (snd (window_run limit ts w))) =
     length (filter (\<lambda>t. t > c) w)
     + length (filter (\<lambda>t. t > c) (accepted ts (fst (window_run limit ts w))))"
proof (induction ts arbitrary: w)
  case Nil
  show ?case by simp
next
  case (Cons now rest)
  then have now: "now \<le> c + 60000" and rest: "\<forall>x\<in>set rest. x \<le> c + 60000" by simp_all
  show ?case
    using Cons.IH [OF rest, of "snd (window_step limit now w)"] window_step_count [OF now, of limit w]
    by (simp add: split_beta accepted_Cons)
qed

lemma window_run_bound:
  "length (filter P (snd (window_run limit ts w))) \<le>
     length (filter P w) + length (filter P (accepted ts (fst (window_run limit ts w))))"
proof (induction ts arbitrary: w)
  case Nil
  show ?case by simp
next
  case (Cons now rest)
  show ?case
    using Cons.IH [of "snd (window_step limit now w)"] window_step_bound [of P limit now w]
    by (simp add: split_beta accepted_Cons split: if_splits)
qed

lemma length_window_run: "length (fst (window_run limit ts w)) = length ts"
  by (induction ts arbitrary: w) (simp_all add: split_beta)

lemma accepted_all:
  "length oks = length ts \<Longrightarrow> list_all (\<lambda>b. b) oks \<Longrightarrow> accepted ts oks = ts"
  by (induction ts oks rule: list_induct2') (simp_all add: accepted_Cons)

lemma window_reject:
  assumes all_ok: "list_all (\<lambda>b. b) (fst (window_run limit ts w))"
      and lim: "limit = int (length ts)"
      and win: "\<forall>x\<in>set ts. t - 60000 < x \<and> x \<le> t"
  shows "window_step limit t (snd (window_run limit ts w)) =
           (False, filter (\<lambda>x. x > t - 60000) (snd (window_run limit ts w)))"
proof -
  have acc: "accepted ts (fst (window_run limit ts w)) = ts"
    using all_ok by (simp add: accepted_all length_window_run)
  have "\<forall>x\<in>set ts. x \<le> (t - 60000) + 60000" using win by simp
  from window_run_count [OF this, of limit w]
  have "length (filter (\<lambda>x. x > t - 60000) (snd (window_run limit ts w)))
          = length (filter (\<lambda>x. x > t - 60000) w) + length (filter (\<lambda>x. x > t - 60000) ts)"
    by (simp add: acc)
  moreover have "filter (\<lambda>x. x > t - 60000) ts = ts"
    using win by (simp add: filter_id_conv)
  ultimately have "int (length (filter (\<lambda>x. x > t - 60000) (snd (window_run limit ts w)))) \<ge> limit"
    by (simp add: lim)
  then show ?thesis by (simp add: window_step_def Let_def)
qed

lemma window_recover:
  assumes ne: "ts \<noteq> []" and pos: "1 \<le> limit"
      and few: "int (length (accepted ts (fst (window_run limit ts [])))) \<le> limit"
      and late: "hd ts + 60000 < t"
  shows "window_step limit t (snd (window_run limit ts [])) =
           (True, filter (\<lambda>x. x > t - 60000) (snd (window_run limit ts [])) @ [t])"
proof -
  obtain x rest where ts: "ts = x # rest" using ne by (cases ts) auto
  have first: "fst (window_step limit x []) = True" "snd (window_step limit x []) = [x]"
    using pos by (simp_all add: window_step_def)
  let ?oks = "fst (window_run limit rest [x])"
  have acc: "accepted ts (fst (window_run limit ts [])) = x # accepted rest ?oks"
    by (simp add: ts split_beta first accepted_Cons)
  have old: "\<not> x > t - 60000" using late by (simp add: ts)
  have "length (filter (\<lambda>x. x > t - 60000) (snd (window_run limit ts [])))
          \<le> length (filter (\<lambda>x. x > t - 60000) (accepted ts (fst (window_run limit ts []))))"
    using window_run_bound [of "\<lambda>x. x > t - 60000" limit ts "[]"] by simp
  also have "\<dots> = length (filter (\<lambda>x. x > t - 60000) (accepted rest ?oks))"
    using old by (simp add: acc)
  also have "\<dots> \<le> length (accepted rest ?oks)" by simp
  finally have "int (length (filter (\<lambda>x. x > t - 60000) (snd (window_run limit ts [])))) < limit"
    using few by (simp add: acc)
  then show ?thesis by (simp add: window_step_def Let_def)
qed

lemma window_step_pruned: "\<forall>x\<in>set (snd (window_step limit now w)). now - 60000 < x"
  by (auto simp: window_step_def Let_def)

lemma window_step_decision:
  "fst (window_step limit now w) = (int (length (filter (\<lambda>x. now - 60000 < x) w)) < limit)"
  by (auto simp: window_step_def Let_def)

lemma actions_reject:
  assumes run: "recordActions ts l = (oks, l1)" and ok: "list_all (\<lambda>b. b) oks"
      and lim: "maxActionsPerMinute (limits l) = int (length ts)"
      and win: "\<forall>x\<in>set ts. t - 60000 < x \<and> x \<le> t"
  shows "recordAction t l1 =
           (False, l1\<lparr>actionTimestamps := filter (\<lambda>x. t - 60000 < x) (actionTimestamps l1)\<rparr>)"
proof -
  let ?lim = "maxActionsPerMinute (limits l)"
  let ?r = "window_run ?lim ts (actionTimestamps l)"
  have oks: "oks = fst ?r" and l1: "l1 = l\<lparr>actionTimestamps := snd ?r\<rparr>"
    using run by (simp_all add: recordActions_window_run)
  have "window_step ?lim t (snd ?r) = (False, filter (\<lambda>x. x > t - 60000) (snd ?r))"
    using ok lim win by (intro window_reject) (simp_all add: oks)
  then show ?thesis by (simp add: recordAction_window_step l1)
qed

lemma navigations_reject:
  assumes run: "recordNavigations ts l = (oks, l1)" and ok: "list_all (\<lambda>b. b) oks"
      and lim: "maxNavigationsPerMinute (limits l) = int (length ts)"
      and win: "\<forall>x\<in>set ts. t - 60000 < x \<and> x \<le> t"
  shows "recordNavigation t l1 =
           (False, l1\<lparr>navigationTimestamps :=
                         filter (\<lambda>x. t - 60000 < x) (navigationTimestamps l1)\<rparr>)"
proof -
  let ?lim = "maxNavigationsPerMinute (limits l)"
  let ?r = "window_run ?lim ts (navigationTimestamps l)"
  have oks: "oks = fst ?r" and l1: "l1 = l\<lparr>navigationTimestamps := snd ?r\<rparr>"
    using run by (simp_all add: recordNavigations_window_run)
  have "window_step ?lim t (snd ?r) = (False, filter (\<lambda>x. x > t - 60000) (snd ?r))"
    using ok lim win by (intro window_reject) (simp_all add: oks)
  then show ?thesis by (simp add: recordNavigation_window_step l1)
qed

lemma actions_recover:
  assumes fresh: "actionTimestamps l = []" and run: "recordActions ts l = (oks, l1)"
      and ne: "ts \<noteq> []" and pos: "1 \<le> maxActionsPerMinute (limits l)"
      and few: "int (length (accepted ts oks)) \<le> maxActionsPerMinute (limits l)"
      and late: "hd ts + 60000 < t"
  shows "recordAction t l1 =
           (True, l1\<lparr>actionTimestamps :=
                        filter (\<lambda>x. t - 60000 < x) (actionTimestamps l1) @ [t]\<rparr>)"
proof -
  let ?lim = "maxActionsPerMinute (limits l)"
  let ?r = "window_run ?lim ts []"
  have oks: "oks = fst ?r" and l1: "l1 = l\<lparr>actionTimestamps := snd ?r\<rparr>"
    using run fresh by (simp_all add: recordActions_window_run)
  have "window_step ?lim t (snd ?r) = (True, filter (\<lambda>x. x > t - 60000) (snd ?r) @ [t])"
    using ne pos few late by (intro window_recover) (simp_all add: oks)
  then show ?thesis by (simp add: recordAction_window_step l1)
qed

lemma navigations_recover:
  assumes fresh: "navigationTimestamps l = []" and run: "recordNavigations ts l = (oks, l1)"
      and ne: "ts \<noteq> []" and pos: "1 \<le> maxNavigationsPerMinute (limits l)"
      and few: "int (length (accepted ts oks)) \<le> maxNavigationsPerMinute (limits l)"
      and late: "hd ts + 60000 < t"
  shows "recordNavigation t l1 =
           (True, l1\<lparr>navigationTimestamps :=
                        filter (\<lambda>x. t - 60000 < x) (navigationTimestamps l1) @ [t]\<rparr>)"
proof -
  let ?lim = "maxNavigationsPerMinute (limits l)"
  let ?r = "window_run ?lim ts []"
  have oks: "oks = fst ?r" and l1: "l1 = l\<lparr>navigationTimestamps := snd ?r\<rparr>"
    using run fresh by (simp_all add: recordNavigations_window_run)
  have "window_step ?lim t (snd ?r) = (True, filter (\<lambda>x. x > t - 60000) (snd ?r) @ [t])"
    using ne pos few late by (intro window_recover) (simp_all add: oks)
  then show ?thesis by (simp add: recordNavigation_window_step l1)
qed

text \<open>
  Claim C7. For a limiter with action limit \<open>N\<close>: after \<open>N\<close> accepted calls of
  \<open>recordAction\<close>, all within the sixty seconds before the next call at time \<open>t\<close>, that
  call returns false and leaves the pruned window with nothing appended. From a new
  limiter with a limit of one or more, once more than sixty seconds have passed since the
  first call, and as long as no more than \<open>N\<close> calls were accepted so far, the next call
  returns true and appends its time. The same holds for \<open>recordNavigation\<close> with the
  navigation limit. Every call first prunes its window of the entries not after
  \<open>now - 60s\<close> and decides on what is left.
\<close>

theorem rate_limiter_sliding_window:
  "(recordActions ts l = (oks, l1) \<longrightarrow> list_all (\<lambda>b. b) oks
      \<longrightarrow> maxActionsPerMinute (limits l) = int (length ts)
      \<longrightarrow> (\<forall>x\<in>set ts. t - 60000 < x \<and> x \<le> t)
      \<longrightarrow> recordAction t l1 =
            (False, l1\<lparr>actionTimestamps :=
                          filter (\<lambda>x. t - 60000 < x) (actionTimestamps l1)\<rparr>))
   \<and> (actionTimestamps l = [] \<longrightarrow> recordActions ts l = (oks, l1) \<longrightarrow> ts \<noteq> []
      \<longrightarrow> 1 \<le> maxActionsPerMinute (limits l)
      \<longrightarrow> int (length (accepted ts oks)) \<le> maxActionsPerMinute (limits l)
      \<longrightarrow> hd ts + 60000 < t
      \<longrightarrow> recordAction t l1 =
            (True, l1\<lparr>actionTimestamps :=
                         filter (\<lambda>x. t - 60000 < x) (actionTimestamps l1) @ [t]\<rparr>))
   \<and> (recordNavigations ts l = (oks, l1) \<longrightarrow> list_all (\<lambda>b. b) oks
      \<longrightarrow> maxNavigationsPerMinute (limits l) = int (length ts)
      \<longrightarrow> (\<forall>x\<in>set ts. t - 60000 < x \<and> x \<le> t)
      \<longrightarrow> recordNavigation t l1 =
            (False, l1\<lparr>navigationTimestamps :=
                          filter (\<lambda>x. t - 60000 < x) (navigationTimestamps l1)\<rparr>))
   \<and> (navigationTimestamps l = [] \<longrightarrow> recordNavigations ts l = (oks, l1) \<longrightarrow> ts \<noteq> []
      \<longrightarrow> 1 \<le> maxNavigationsPerMinute (limits l)
      \<longrightarrow> int (length (accepted ts oks)) \<le> maxNavigationsPerMinute (limits l)
      \<longrightarrow> hd ts + 60000 < t
      \<longrightarrow> recordNavigation t l1 =
            (True, l1\<lparr>navigationTimestamps :=
                         filter (\<lambda>x. t - 60000 < x) (navigationTimestamps l1) @ [t]\<rparr>))
   \<and> (\<forall>x\<in>set (actionTimestamps (snd (recordAction t l))). t - 60000 < x)
   \<and> (\<forall>x\<in>set (navigationTimestamps (snd (recordNavigation t l))). t - 60000 < x)
   \<and> fst (recordAction t l) =
       (int (length (filter (\<lambda>x. t - 60000 < x) (actionTimestamps l)))
          < maxActionsPerMinute (limits l))
   \<and> fst (recordNavigation t l) =
       (int (length (filter (\<lambda>x. t - 60000 < x) (navigationTimestamps l)))
          < maxNavigationsPerMinute (limits l))"
proof (intro conjI impI)
  show "\<forall>x\<in>set (actionTimestamps (snd (recordAction t l))). t - 60000 < x"
    using window_step_pruned [of "maxActionsPerMinute (limits l)" t "actionTimestamps l"]
    by (simp add: recordAction_window_step)
  show "\<forall>x\<in>set (navigationTimestamps (snd (recordNavigation t l))). t - 60000 < x"
    using window_step_pruned [of "maxNavigationsPerMinute (limits l)" t "navigationTimestamps l"]
    by (simp add: recordNavigation_window_step)
  show "fst (recordAction t l) =
       (int (length (filter (\<lambda>x. t - 60000 < x) (actionTimestamps l)))
          < maxActionsPerMinute (limits l))"
    by (simp add: recordAction_window_step window_step_decision)
  show "fst (recordNavigation t l) =
       (int (length (filter (\<lambda>x. t - 60000 < x) (navigationTimestamps l)))
          < maxNavigationsPerMinute (limits l))"
    by (simp add: recordNavigation_window_step window_step_decision)
qed (erule (3) actions_reject, erule (5) actions_recover,
     erule (3) navigations_reject, erule (5) navigations_recover)

lemma test_run:
  "recordActions [0, 10] test_limiter =
     ([True, True], test_limiter\<lparr>actionTimestamps := [0, 10]\<rparr>)"
  "recordActions [0, 10, 20] test_limiter =
     ([True, True, False], test_limiter\<lparr>actionTimestamps := [0, 10]\<rparr>)"
  "recordNavigations [5] test_limiter = ([True], test_limiter\<lparr>navigationTimestamps := [5]\<rparr>)"
  by (simp_all add: test_limiter_def new_ActionRateLimiter_def recordAction_def
      recordNavigation_def)

theorem rate_limiter_sliding_window_witness:
  "fst (recordAction 20 (test_limiter\<lparr>actionTimestamps := [0, 10]\<rparr>)) = False
   \<and> actionTimestamps (snd (recordAction 20 (test_limiter\<lparr>actionTimestamps := [0, 10]\<rparr>)))
       = [0, 10]
   \<and> fst (recordAction 60001 (test_limiter\<lparr>actionTimestamps := [0, 10]\<rparr>)) = True
   \<and> fst (recordNavigation 59999 (test_limiter\<lparr>navigationTimestamps := [5]\<rparr>)) = False
   \<and> fst (recordNavigation 60006 (test_limiter\<lparr>navigationTimestamps := [5]\<rparr>)) = True"
proof -
  have lim: "maxActionsPerMinute (limits test_limiter) = 2"
    "maxNavigationsPerMinute (limits test_limiter) = 1"
    "actionTimestamps test_limiter = []" "navigationTimestamps test_limiter = []"
    by (simp_all add: test_limiter_def new_ActionRateLimiter_def)
  note w = rate_limiter_sliding_window
  have "recordAction 20 (test_limiter\<lparr>actionTimestamps := [0, 10]\<rparr>) =
          (False, test_limiter\<lparr>actionTimestamps := [0, 10]\<rparr>)"
    using w [of "[0, 10]" test_limiter "[True, True]"
               "test_limiter\<lparr>actionTimestamps := [0, 10]\<rparr>" 20] test_run(1) lim
    by simp
  moreover have "fst (recordAction 60001 (test_limiter\<lparr>actionTimestamps := [0, 10]\<rparr>))"
    using w [of "[0, 10, 20]" test_limiter "[True, True, False]"
               "test_limiter\<lparr>actionTimestamps := [0, 10]\<rparr>" 60001] test_run(2) lim
    by (simp add: accepted_def)
  moreover have "\<not> fst (recordNavigation 59999 (test_limiter\<lparr>navigationTimestamps := [5]\<rparr>))"
    using w [of "[5]" test_limiter "[True]"
               "test_limiter\<lparr>navigationTimestamps := [5]\<rparr>" 59999] test_run(3) lim
    by simp
  moreover have "fst (recordNavigation 60006 (test_limiter\<lparr>navigationTimestamps := [5]\<rparr>))"
    using w [of "[5]" test_limiter "[True]"
               "test_limiter\<lparr>navigationTimestamps := [5]\<rparr>" 60006] test_run(3) lim
    by (simp add: accepted_def)
  ultimately show ?thesis by simp
qed


section \<open>The browser action primitives\<close>

lemma await_Inl [simp]: "await (Inl e) f = Inl e"
  by (simp add: await_def)

lemma await_Inr [simp]: "await (Inr x) f = f x"
  by (simp add: await_def)

text \<open>
  Claim C8, as stated, fails: \<open>navigate\<close> raises when \<open>page.goto\<close> is rejected.
\<close>

theorem navigate_raises_when_goto_fails:
  "navigate unreachable_driver ''https://example.invalid'' ''about:blank''
     = Inl (Error ''net::ERR_NAME_NOT_RESOLVED'')"
  by (simp add: navigate_def unreachable_driver_def await_def showOverlay_def run_script_def)

subsection \<open>When a primitive returns, and what it raises\<close>

lemma await_Inr_iff: "(await m f = Inr r) = (\<exists>x. m = Inr x \<and> f x = Inr r)"
  by (cases m) simp_all

lemma await_Inl_iff: "(await m f = Inl e) = (m = Inl e \<or> (\<exists>x. m = Inr x \<and> f x = Inl e))"
  by (cases m) simp_all

lemma run_script_Inr_iff:
  "(run_script d sc s = Inr s') = (\<exists>v. page_evaluate d sc s = Inr (v, s'))"
  by (auto simp: run_script_def await_Inr_iff)

lemma run_script_raises: "run_script d sc s = Inl e \<Longrightarrow> driver_raises d e"
  by (auto simp: run_script_def await_Inl_iff driver_raises_def)

lemma helpers_raise:
  "showOverlay d m s = Inl e \<Longrightarrow> driver_raises d e"
  "moveMouse d x y s = Inl e \<Longrightarrow> driver_raises d e"
  "showScrollIndicator d dir s = Inl e \<Longrightarrow> driver_raises d e"
  "animateClick d s = Inl e \<Longrightarrow> driver_raises d e"
  "getViewportSize d s = Inl e \<Longrightarrow> driver_raises d e"
  "getElementLabel d x y s = Inl e \<Longrightarrow> driver_raises d e"
  by (auto simp: showOverlay_def moveMouse_def showScrollIndicator_def animateClick_def
      getViewportSize_def getElementLabel_def await_Inl_iff driver_raises_def
      dest: run_script_raises split: option.splits)

lemma ops_raise:
  "getPage d s = Inl e \<Longrightarrow> driver_raises d e"
  "page_goto d u s = Inl e \<Longrightarrow> driver_raises d e"
  "mouse_click d x y s = Inl e \<Longrightarrow> driver_raises d e"
  "mouse_move d x y s = Inl e \<Longrightarrow> driver_raises d e"
  "mouse_down d s = Inl e \<Longrightarrow> driver_raises d e"
  "mouse_up d s = Inl e \<Longrightarrow> driver_raises d e"
  "mouse_wheel d x y s = Inl e \<Longrightarrow> driver_raises d e"
  "keyboard_press d k s = Inl e \<Longrightarrow> driver_raises d e"
  "keyboard_type d t s = Inl e \<Longrightarrow> driver_raises d e"
  by (auto simp: driver_raises_def)

lemma succeed_iff:
  "(succeed d m s = Inr (res, s')) =
     (s' = s \<and> res = \<lparr>output' = Some m, error' = None, url' = Some (page_url d s)\<rparr>)"
  by (auto simp: succeed_def)

lemma succeed_not_Inl [simp]: "succeed d m s \<noteq> Inl e"
  by (simp add: succeed_def)

lemma navigate_returns:
  "(navigate d u s = Inr (res, s')) =
     (\<exists>s1 s2. getPage d s = Inr s1 \<and> showOverlay d (''Navigating to '' @ u) s1 = Inr s2
        \<and> page_goto d u s2 = Inr s'
        \<and> res = \<lparr>output' = Some (''Navigated to '' @ u), error' = None,
                  url' = Some (page_url d s')\<rparr>)"
  by (auto simp: navigate_def await_Inr_iff succeed_iff)

lemma navigate_raises: "navigate d u s = Inl e \<Longrightarrow> driver_raises d e"
  by (auto simp: navigate_def await_Inl_iff dest: helpers_raise ops_raise)

lemma clickAt_returns:
  "(clickAt d x y s = Inr (res, s')) =
     (\<exists>s1. getPage d s = Inr s1 \<and>
        ((getViewportSize d s1 = Inr (None, s')
          \<and> res = \<lparr>output' = None, error' = Some ''Viewport not available'',
                    url' = Some (page_url d s')\<rparr>)
         \<or> (\<exists>vp s2 s3 label s4 s5 s6.
               getViewportSize d s1 = Inr (Some vp, s2)
             \<and> moveMouse d (x / 1000 * width vp) (y / 1000 * height vp) s2 = Inr s3
             \<and> getElementLabel d (x / 1000 * width vp) (y / 1000 * height vp) s3
                 = Inr (label, s4)
             \<and> showOverlay d
                  (if truthy label
                   then ''Clicking '' @ [DQ] @ (case label of Some l \<Rightarrow> l | None \<Rightarrow> []) @ [DQ]
                   else ''Clicking at '' @ show_number d x @ '', '' @ show_number d y) s4
                 = Inr s5
             \<and> mouse_click d (x / 1000 * width vp) (y / 1000 * height vp) s5 = Inr s6
             \<and> animateClick d s6 = Inr s'
             \<and> res = \<lparr>output' = Some ''Clicked'', error' = None,
                       url' = Some (page_url d s')\<rparr>)))"
proof (cases "getPage d s")
  case (Inl e)
  then show ?thesis by (simp add: clickAt_def)
next
  case s1: (Inr s1)
  show ?thesis
  proof (cases "getViewportSize d s1")
    case (Inl e)
    with s1 show ?thesis by (simp add: clickAt_def)
  next
    case (Inr r)
    obtain viewport s2 where r: "r = (viewport, s2)" by (cases r)
    show ?thesis
    proof (cases viewport)
      case None
      with s1 Inr r show ?thesis
        by (auto simp: clickAt_def viewport_not_available_def)
    next
      case (Some vp)
      with s1 Inr r show ?thesis
        by (auto simp: clickAt_def await_Inr_iff succeed_iff Let_def split del: if_split)
    qed
  qed
qed

lemma clickAt_raises: "clickAt d x y s = Inl e \<Longrightarrow> driver_raises d e"
  by (auto simp: clickAt_def await_Inl_iff Let_def dest: helpers_raise ops_raise
      split: option.splits split del: if_split)


lemma typeTextAt_returns:
  "(typeTextAt d x y txt pressEnter clearBeforeTyping s = Inr (res, s')) =
     (\<exists>s1. getPage d s = Inr s1 \<and>
        ((getViewportSize d s1 = Inr (None, s')
          \<and> res = \<lparr>output' = None, error' = Some ''Viewport not available'',
                    url' = Some (page_url d s')\<rparr>)
         \<or> (\<exists>vp s2 s3 label s4 s5 s6 s7 s8 s9.
               getViewportSize d s1 = Inr (Some vp, s2)
             \<and> moveMouse d (x / 1000 * width vp) (y / 1000 * height vp) s2 = Inr s3
             \<and> getElementLabel d (x / 1000 * width vp) (y / 1000 * height vp) s3
                 = Inr (label, s4)
             \<and> showOverlay d
                  (if truthy label
                   then ''Typing '' @ [DQ] @ txt @ [DQ] @ '' into ''
                        @ (case label of Some l \<Rightarrow> l | None \<Rightarrow> [])
                   else ''Typing '' @ [DQ] @ txt @ [DQ] @ '' at ''
                        @ show_number d x @ '', '' @ show_number d y) s4
                 = Inr s5
             \<and> mouse_click d (x / 1000 * width vp) (y / 1000 * height vp) s5 = Inr s6
             \<and> animateClick d s6 = Inr s7
             \<and> (if clearBeforeTyping
                  then \<exists>sa. keyboard_press d ''Control+A'' s7 = Inr sa
                           \<and> keyboard_press d ''Backspace'' sa = Inr s8
                  else s8 = s7)
             \<and> keyboard_type d txt s8 = Inr s9
             \<and> (if pressEnter then keyboard_press d ''Enter'' s9 = Inr s' else s' = s9)
             \<and> res = \<lparr>output' = Some (''Typed '' @ [DQ] @ txt @ [DQ]), error' = None,
                       url' = Some (page_url d s')\<rparr>)))"
proof (cases "getPage d s")
  case (Inl e)
  then show ?thesis by (simp add: typeTextAt_def)
next
  case s1: (Inr s1)
  show ?thesis
  proof (cases "getViewportSize d s1")
    case (Inl e)
    with s1 show ?thesis by (simp add: typeTextAt_def)
  next
    case (Inr r)
    obtain viewport s2 where r: "r = (viewport, s2)" by (cases r)
    show ?thesis
    proof (cases viewport)
      case None
      with s1 Inr r show ?thesis
        by (auto simp: typeTextAt_def viewport_not_available_def)
    next
      case (Some vp)
      with s1 Inr r show ?thesis
        by (cases clearBeforeTyping; cases pressEnter; auto simp: typeTextAt_def await_Inr_iff succeed_iff Let_def
            split del: if_split)
    qed
  qed
qed

lemma typeTextAt_raises:
  "typeTextAt d x y txt pressEnter clearBeforeTyping s = Inl e \<Longrightarrow> driver_raises d e"
  by (cases clearBeforeTyping; cases pressEnter)
     (auto simp: typeTextAt_def await_Inl_iff Let_def dest: helpers_raise ops_raise
      split: option.splits split del: if_split)

lemma scrollDocument_returns:
  "(scrollDocument d direction amount s = Inr (res, s')) =
     (\<exists>s1 s2 s3. getPage d s = Inr s1 \<and> showScrollIndicator d direction s1 = Inr s2
        \<and> showOverlay d (''Scrolling '' @ direction) s2 = Inr s3
        \<and> mouse_wheel d
             (if direction = ''right'' then amount
              else if direction = ''left'' then - amount else 0)
             (if direction = ''down'' then amount
              else if direction = ''up'' then - amount else 0) s3 = Inr s'
        \<and> res = \<lparr>output' = Some (''Scrolled '' @ direction @ '' by '' @ show_number d amount),
                  error' = None, url' = Some (page_url d s')\<rparr>)"
  by (auto simp: scrollDocument_def await_Inr_iff succeed_iff Let_def split del: if_split)

lemma scrollDocument_raises:
  "scrollDocument d direction amount s = Inl e \<Longrightarrow> driver_raises d e"
  by (auto simp: scrollDocument_def await_Inl_iff Let_def dest: helpers_raise ops_raise
      split del: if_split)

lemma dragAndDrop_returns:
  "(dragAndDrop d x y destX destY s = Inr (res, s')) =
     (\<exists>s1 s2. getPage d s = Inr s1
        \<and> showOverlay d (''Dragging from '' @ show_number d x @ '','' @ show_number d y
                           @ '' to '' @ show_number d destX @ '','' @ show_number d destY) s1
            = Inr s2 \<and>
        ((getViewportSize d s2 = Inr (None, s')
          \<and> res = \<lparr>output' = None, error' = Some ''Viewport not available'',
                    url' = Some (page_url d s')\<rparr>)
         \<or> (\<exists>vp s3 s4 s5 s6 s7 s8 s9 s10.
               getViewportSize d s2 = Inr (Some vp, s3)
             \<and> moveMouse d (x / 1000 * width vp) (y / 1000 * height vp) s3 = Inr s4
             \<and> mouse_move d (x / 1000 * width vp) (y / 1000 * height vp) s4 = Inr s5
             \<and> animateClick d s5 = Inr s6
             \<and> mouse_down d s6 = Inr s7
             \<and> moveMouse d (destX / 1000 * width vp) (destY / 1000 * height vp) s7 = Inr s8
             \<and> mouse_move d (destX / 1000 * width vp) (destY / 1000 * height vp) s8 = Inr s9
             \<and> mouse_up d s9 = Inr s10
             \<and> animateClick d s10 = Inr s'
             \<and> res = \<lparr>output' = Some (''Dragged from '' @ show_number d x @ '',''
                                       @ show_number d y @ '' to '' @ show_number d destX
                                       @ '','' @ show_number d destY),
                       error' = None, url' = Some (page_url d s')\<rparr>)))"
proof (cases "getPage d s")
  case (Inl e)
  then show ?thesis by (simp add: dragAndDrop_def Let_def)
next
  case s1: (Inr s1)
  let ?m = "''Dragging from '' @ show_number d x @ '','' @ show_number d y
            @ '' to '' @ show_number d destX @ '','' @ show_number d destY"
  show ?thesis
  proof (cases "showOverlay d ?m s1")
    case (Inl e)
    with s1 show ?thesis by (simp add: dragAndDrop_def Let_def)
  next
    case s2: (Inr s2)
    show ?thesis
    proof (cases "getViewportSize d s2")
      case (Inl e)
      with s1 s2 show ?thesis by (simp add: dragAndDrop_def Let_def)
    next
      case (Inr r)
      obtain viewport s3 where r: "r = (viewport, s3)" by (cases r)
      show ?thesis
      proof (cases viewport)
        case None
        with s1 s2 Inr r show ?thesis
          by (auto simp: dragAndDrop_def viewport_not_available_def Let_def)
      next
        case (Some vp)
        with s1 s2 Inr r show ?thesis
          by (auto simp: dragAndDrop_def await_Inr_iff succeed_iff Let_def)
      qed
    qed
  qed
qed

lemma dragAndDrop_raises: "dragAndDrop d x y destX destY s = Inl e \<Longrightarrow> driver_raises d e"
  by (auto simp: dragAndDrop_def await_Inl_iff Let_def dest: helpers_raise ops_raise
      split: option.splits)

lemma pagedown_returns:
  "(pagedown d s = Inr (res, s')) =
     (\<exists>s1 s2. getPage d s = Inr s1 \<and> showOverlay d ''Pressing PageDown'' s1 = Inr s2
        \<and> keyboard_press d ''PageDown'' s2 = Inr s'
        \<and> res = \<lparr>output' = Some ''Pressed PageDown'', error' = None,
                  url' = Some (page_url d s')\<rparr>)"
  by (auto simp: pagedown_def await_Inr_iff succeed_iff)

lemma pageup_returns:
  "(pageup d s = Inr (res, s')) =
     (\<exists>s1 s2. getPage d s = Inr s1 \<and> showOverlay d ''Pressing PageUp'' s1 = Inr s2
        \<and> keyboard_press d ''PageUp'' s2 = Inr s'
        \<and> res = \<lparr>output' = Some ''Pressed PageUp'', error' = None,
                  url' = Some (page_url d s')\<rparr>)"
  by (auto simp: pageup_def await_Inr_iff succeed_iff)

lemma keyCombination_returns:
  "(keyCombination d keys s = Inr (res, s')) =
     (\<exists>s1 s2. getPage d s = Inr s1 \<and> showOverlay d (''Pressing '' @ keys) s1 = Inr s2
        \<and> keyboard_press d keys s2 = Inr s'
        \<and> res = \<lparr>output' = Some (''Pressed '' @ keys), error' = None,
                  url' = Some (page_url d s')\<rparr>)"
  by (auto simp: keyCombination_def await_Inr_iff succeed_iff)

lemma openWebBrowser_returns:
  "(openWebBrowser d s = Inr (res, s')) =
     (getPage d s = Inr s'
      \<and> res = \<lparr>output' = Some ''Browser opened'', error' = None,
                url' = Some (page_url d s')\<rparr>)"
  by (auto simp: openWebBrowser_def await_Inr_iff succeed_iff)

lemma key_primitives_raise:
  "pagedown d s = Inl e \<Longrightarrow> driver_raises d e"
  "pageup d s = Inl e \<Longrightarrow> driver_raises d e"
  "keyCombination d keys s = Inl e \<Longrightarrow> driver_raises d e"
  "openWebBrowser d s = Inl e \<Longrightarrow> driver_raises d e"
  by (auto simp: pagedown_def pageup_def keyCombination_def openWebBrowser_def await_Inl_iff
      dest: helpers_raise ops_raise)

lemma script_helpers_return:
  "(showOverlay d m s = Inr s') = (\<exists>v. page_evaluate d (ShowOverlay m) s = Inr (v, s'))"
  "(moveMouse d x y s = Inr s') = (\<exists>v. page_evaluate d (MoveMouse x y) s = Inr (v, s'))"
  "(showScrollIndicator d direction s = Inr s')
     = (\<exists>v. page_evaluate d (ShowScrollIndicator direction) s = Inr (v, s'))"
  "(animateClick d s = Inr s') = (\<exists>v. page_evaluate d AnimateClick s = Inr (v, s'))"
  by (simp_all add: showOverlay_def moveMouse_def showScrollIndicator_def animateClick_def
      run_script_Inr_iff)

lemma getViewportSize_returns:
  "(getViewportSize d s = Inr (viewport, s')) =
     (case page_viewportSize d s of
        Some vp \<Rightarrow> viewport = Some vp \<and> s' = s
      | None \<Rightarrow>
          \<exists>v. page_evaluate d WindowInnerSize s = Inr (v, s')
              \<and> viewport = (case v of Size vp \<Rightarrow> Some vp | _ \<Rightarrow> None))"
  by (auto simp: getViewportSize_def await_Inr_iff split: option.splits)

lemma getElementLabel_returns:
  "(getElementLabel d x y s = Inr (label, s')) =
     (\<exists>v. page_evaluate d (ElementLabel x y) s = Inr (v, s')
          \<and> label = (case v of Str l \<Rightarrow> Some l | _ \<Rightarrow> None))"
  by (auto simp: getElementLabel_def await_Inr_iff)

text \<open>
  Claim C8, amended. No primitive catches an error: each of the nine returns a result
  exactly when every driver call it makes, in the order of the code, succeeds, and the
  result then carries \<open>output\<close> and \<open>url\<close> and no \<open>error\<close>; so a rejected driver call
  (\<open>getPage\<close>, \<open>page.goto\<close>, \<open>page.evaluate\<close>, a mouse or a keyboard call) makes the
  primitive raise, and what a primitive raises is an error of the driver. The one result
  with \<open>error\<close> and \<open>url\<close> is that of a missing viewport, returned by \<open>click_at\<close>,
  \<open>type_text_at\<close> and \<open>drag_and_drop\<close>. The helpers that run a script in the page return
  exactly when \<open>page.evaluate\<close> does. The tool that runs the agent catches what the run of
  the task raises and returns it as an error result.
\<close>

theorem primitives_return_only_when_the_driver_succeeds:
  "(navigate d u s = Inr (res, s')) =
     (\<exists>s1 s2. getPage d s = Inr s1 \<and> showOverlay d (''Navigating to '' @ u) s1 = Inr s2
        \<and> page_goto d u s2 = Inr s'
        \<and> res = \<lparr>output' = Some (''Navigated to '' @ u), error' = None,
                  url' = Some (page_url d s')\<rparr>)
   \<and> (clickAt d x y s = Inr (res, s')) =
     (\<exists>s1. getPage d s = Inr s1 \<and>
        ((getViewportSize d s1 = Inr (None, s')
          \<and> res = \<lparr>output' = None, error' = Some ''Viewport not available'',
                    url' = Some (page_url d s')\<rparr>)
         \<or> (\<exists>vp s2 s3 label s4 s5 s6.
               getViewportSize d s1 = Inr (Some vp, s2)
             \<and> moveMouse d (x / 1000 * width vp) (y / 1000 * height vp) s2 = Inr s3
             \<and> getElementLabel d (x / 1000 * width vp) (y / 1000 * height vp) s3
                 = Inr (label, s4)
             \<and> showOverlay d
                  (if truthy label
                   then ''Clicking '' @ [DQ] @ (case label of Some l \<Rightarrow> l | None \<Rightarrow> []) @ [DQ]
                   else ''Clicking at '' @ show_number d x @ '', '' @ show_number d y) s4
                 = Inr s5
             \<and> mouse_click d (x / 1000 * width vp) (y / 1000 * height vp) s5 = Inr s6
             \<and> animateClick d s6 = Inr s'
             \<and> res = \<lparr>output' = Some ''Clicked'', error' = None,
                       url' = Some (page_url d s')\<rparr>)))
   \<and> (typeTextAt d x y txt pressEnter clearBeforeTyping s = Inr (res, s')) =
     (\<exists>s1. getPage d s = Inr s1 \<and>
        ((getViewportSize d s1 = Inr (None, s')
          \<and> res = \<lparr>output' = None, error' = Some ''Viewport not available'',
                    url' = Some (page_url d s')\<rparr>)
         \<or> (\<exists>vp s2 s3 label s4 s5 s6 s7 s8 s9.
               getViewportSize d s1 = Inr (Some vp, s2)
             \<and> moveMouse d (x / 1000 * width vp) (y / 1000 * height vp) s2 = Inr s3
             \<and> getElementLabel d (x / 1000 * width vp) (y / 1000 * height vp) s3
                 = Inr (label, s4)
             \<and> showOverlay d
                  (if truthy label
                   then ''Typing '' @ [DQ] @ txt @ [DQ] @ '' into ''
                        @ (case label of Some l \<Rightarrow> l | None \<Rightarrow> [])
                   else ''Typing '' @ [DQ] @ txt @ [DQ] @ '' at ''
                        @ show_number d x @ '', '' @ show_number d y) s4
                 = Inr s5
             \<and> mouse_click d (x / 1000 * width vp) (y / 1000 * height vp) s5 = Inr s6
             \<and> animateClick d s6 = Inr s7
             \<and> (if clearBeforeTyping
                  then \<exists>sa. keyboard_press d ''Control+A'' s7 = Inr sa
                           \<and> keyboard_press d ''Backspace'' sa = Inr s8
                  else s8 = s7)
             \<and> keyboard_type d txt s8 = Inr s9
             \<and> (if pressEnter then keyboard_press d ''Enter'' s9 = Inr s' else s' = s9)
             \<and> res = \<lparr>output' = Some (''Typed '' @ [DQ] @ txt @ [DQ]), error' = None,
                       url' = Some (page_url d s')\<rparr>)))
   \<and> (scrollDocument d direction amount s = Inr (res, s')) =
     (\<exists>s1 s2 s3. getPage d s = Inr s1 \<and> showScrollIndicator d direction s1 = Inr s2
        \<and> showOverlay d (''Scrolling '' @ direction) s2 = Inr s3
        \<and> mouse_wheel d
             (if direction = ''right'' then amount
              else if direction = ''left'' then - amount else 0)
             (if direction = ''down'' then amount
              else if direction = ''up'' then - amount else 0) s3 = Inr s'
        \<and> res = \<lparr>output' = Some (''Scrolled '' @ direction @ '' by '' @ show_number d amount),
                  error' = None, url' = Some (page_url d s')\<rparr>)
   \<and> (dragAndDrop d x y destX destY s = Inr (res, s')) =
     (\<exists>s1 s2. getPage d s = Inr s1
        \<and> showOverlay d (''Dragging from '' @ show_number d x @ '','' @ show_number d y
                           @ '' to '' @ show_number d destX @ '','' @ show_number d destY) s1
            = Inr s2 \<and>
        ((getViewportSize d s2 = Inr (None, s')
          \<and> res = \<lparr>output' = None, error' = Some ''Viewport not available'',
                    url' = Some (page_url d s')\<rparr>)
         \<or> (\<exists>vp s3 s4 s5 s6 s7 s8 s9 s10.
               getViewportSize d s2 = Inr (Some vp, s3)
             \<and> moveMouse d (x / 1000 * width vp) (y / 1000 * height vp) s3 = Inr s4
             \<and> mouse_move d (x / 1000 * width vp) (y / 1000 * height vp) s4 = Inr s5
             \<and> animateClick d s5 = Inr s6
             \<and> mouse_down d s6 = Inr s7
             \<and> moveMouse d (destX / 1000 * width vp) (destY / 1000 * height vp) s7 = Inr s8
             \<and> mouse_move d (destX / 1000 * width vp) (destY / 1000 * height vp) s8 = Inr s9
             \<and> mouse_up d s9 = Inr s10
             \<and> animateClick d s10 = Inr s'
             \<and> res = \<lparr>output' = Some (''Dragged from '' @ show_number d x @ '',''
                                       @ show_number d y @ '' to '' @ show_number d destX
                                       @ '','' @ show_number d destY),
                       error' = None, url' = Some (page_url d s')\<rparr>)))
   \<and> (pagedown d s = Inr (res, s')) =
     (\<exists>s1 s2. getPage d s = Inr s1 \<and> showOverlay d ''Pressing PageDown'' s1 = Inr s2
        \<and> keyboard_press d ''PageDown'' s2 = Inr s'
        \<and> res = \<lparr>output' = Some ''Pressed PageDown'', error' = None,
                  url' = Some (page_url d s')\<rparr>)
   \<and> (pageup d s = Inr (res, s')) =
     (\<exists>s1 s2. getPage d s = Inr s1 \<and> showOverlay d ''Pressing PageUp'' s1 = Inr s2
        \<and> keyboard_press d ''PageUp'' s2 = Inr s'
        \<and> res = \<lparr>output' = Some ''Pressed PageUp'', error' = None,
                  url' = Some (page_url d s')\<rparr>)
   \<and> (keyCombination d keys s = Inr (res, s')) =
     (\<exists>s1 s2. getPage d s = Inr s1 \<and> showOverlay d (''Pressing '' @ keys) s1 = Inr s2
        \<and> keyboard_press d keys s2 = Inr s'
        \<and> res = \<lparr>output' = Some (''Pressed '' @ keys), error' = None,
                  url' = Some (page_url d s')\<rparr>)
   \<and> (openWebBrowser d s = Inr (res, s')) =
     (getPage d s = Inr s'
      \<and> res = \<lparr>output' = Some ''Browser opened'', error' = None,
                url' = Some (page_url d s')\<rparr>)
   \<and> (showOverlay d message s = Inr s')
       = (\<exists>v. page_evaluate d (ShowOverlay message) s = Inr (v, s'))
   \<and> (moveMouse d x y s = Inr s') = (\<exists>v. page_evaluate d (MoveMouse x y) s = Inr (v, s'))
   \<and> (showScrollIndicator d direction s = Inr s')
       = (\<exists>v. page_evaluate d (ShowScrollIndicator direction) s = Inr (v, s'))
   \<and> (animateClick d s = Inr s') = (\<exists>v. page_evaluate d AnimateClick s = Inr (v, s'))
   \<and> (getViewportSize d s = Inr (viewport, s')) =
       (case page_viewportSize d s of
          Some vp \<Rightarrow> viewport = Some vp \<and> s' = s
        | None \<Rightarrow>
            \<exists>v. page_evaluate d WindowInnerSize s = Inr (v, s')
                \<and> viewport = (case v of Size vp \<Rightarrow> Some vp | _ \<Rightarrow> None))
   \<and> (getElementLabel d x y s = Inr (label, s')) =
       (\<exists>v. page_evaluate d (ElementLabel x y) s = Inr (v, s')
            \<and> label = (case v of Str l \<Rightarrow> Some l | _ \<Rightarrow> None))
   \<and> (navigate d u s = Inl e \<or> clickAt d x y s = Inl e
       \<or> typeTextAt d x y txt pressEnter clearBeforeTyping s = Inl e
       \<or> scrollDocument d direction amount s = Inl e \<or> dragAndDrop d x y destX destY s = Inl e
       \<or> pagedown d s = Inl e \<or> pageup d s = Inl e \<or> keyCombination d keys s = Inl e
       \<or> openWebBrowser d s = Inl e
       \<longrightarrow> driver_raises d e)
   \<and> browserTool_execute (Inl (Error failure)) =
        \<lparr>bt_llmContent = ''Error: '' @ failure, bt_returnDisplay = ''Error: '' @ failure,
         bt_error = Some failure\<rparr>"
proof -
  have raises: "navigate d u s = Inl e \<or> clickAt d x y s = Inl e
       \<or> typeTextAt d x y txt pressEnter clearBeforeTyping s = Inl e
       \<or> scrollDocument d direction amount s = Inl e \<or> dragAndDrop d x y destX destY s = Inl e
       \<or> pagedown d s = Inl e \<or> pageup d s = Inl e \<or> keyCombination d keys s = Inl e
       \<or> openWebBrowser d s = Inl e
       \<longrightarrow> driver_raises d e"
    by (auto dest: navigate_raises clickAt_raises typeTextAt_raises scrollDocument_raises
        dragAndDrop_raises key_primitives_raise)
  have tool: "browserTool_execute (Inl (Error failure)) =
        \<lparr>bt_llmContent = ''Error: '' @ failure, bt_returnDisplay = ''Error: '' @ failure,
         bt_error = Some failure\<rparr>"
    by (simp add: browserTool_execute_def)
  show ?thesis
    by (intro conjI navigate_returns clickAt_returns typeTextAt_returns scrollDocument_returns
        dragAndDrop_returns pagedown_returns pageup_returns keyCombination_returns
        openWebBrowser_returns script_helpers_return getViewportSize_returns
        getElementLabel_returns raises tool)
qed

theorem primitives_return_only_when_the_driver_succeeds_witness:
  "(\<forall>res s'. pagedown stuck_keyboard_driver ''about:blank'' \<noteq> Inr (res, s'))
   \<and> (\<forall>res s'. navigate unreachable_driver ''https://example.invalid'' ''about:blank''
                  \<noteq> Inr (res, s'))
   \<and> driver_raises unreachable_driver (Error ''net::ERR_NAME_NOT_RESOLVED'')
   \<and> clickAt headless_driver 500 500 ''about:blank'' =
       Inr (\<lparr>output' = None, error' = Some ''Viewport not available'',
             url' = Some ''about:blank''\<rparr>, ''about:blank'')
   \<and> dragAndDrop headless_driver 0 0 500 500 ''about:blank'' =
       Inr (\<lparr>output' = None, error' = Some ''Viewport not available'',
             url' = Some ''about:blank''\<rparr>, ''about:blank'')"
proof -
  note w = primitives_return_only_when_the_driver_succeeds
  have k: "keyboard_press stuck_keyboard_driver key st = Inl (Error ''Target closed'')"
    for key st
    by (simp add: stuck_keyboard_driver_def)
  have g: "page_goto unreachable_driver ''https://example.invalid'' st
             = Inl (Error ''net::ERR_NAME_NOT_RESOLVED'')" for st
    by (simp add: unreachable_driver_def)
  have n: "navigate unreachable_driver ''https://example.invalid'' ''about:blank''
             = Inl (Error ''net::ERR_NAME_NOT_RESOLVED'')"
    by (simp add: navigate_def unreachable_driver_def showOverlay_def run_script_def)
  have h: "getPage headless_driver ''about:blank'' = Inr ''about:blank''"
    "showOverlay headless_driver m ''about:blank'' = Inr ''about:blank''"
    "getViewportSize headless_driver ''about:blank'' = Inr (None, ''about:blank'')"
    "page_url headless_driver ''about:blank'' = ''about:blank''" for m
    by (simp_all add: headless_driver_def unreachable_driver_def showOverlay_def run_script_def
        getViewportSize_def)
  have "pagedown stuck_keyboard_driver ''about:blank'' \<noteq> Inr (res, s')" for res s'
    using w [where d = stuck_keyboard_driver and s = "''about:blank''" and res = res
               and s' = s', THEN conjunct2, THEN conjunct2, THEN conjunct2, THEN conjunct2, THEN conjunct2, THEN conjunct1] k
    by simp
  moreover have "navigate unreachable_driver ''https://example.invalid'' ''about:blank''
                   \<noteq> Inr (res, s')" for res s'
    using w [where d = unreachable_driver and u = "''https://example.invalid''"
               and s = "''about:blank''" and res = res and s' = s', THEN conjunct1] g
    by simp
  moreover have "driver_raises unreachable_driver (Error ''net::ERR_NAME_NOT_RESOLVED'')"
    using w [where d = unreachable_driver and u = "''https://example.invalid''"
               and s = "''about:blank''" and e = "Error ''net::ERR_NAME_NOT_RESOLVED''",
             THEN conjunct2, THEN conjunct2, THEN conjunct2, THEN conjunct2, THEN conjunct2, THEN conjunct2, THEN conjunct2, THEN conjunct2, THEN conjunct2, THEN conjunct2, THEN conjunct2, THEN conjunct2, THEN conjunct2, THEN conjunct2, THEN conjunct2, THEN conjunct1] n
    by simp
  moreover have "clickAt headless_driver 500 500 ''about:blank'' =
       Inr (\<lparr>output' = None, error' = Some ''Viewport not available'',
             url' = Some ''about:blank''\<rparr>, ''about:blank'')"
    using w [where d = headless_driver and s = "''about:blank''" and s' = "''about:blank''"
               and x = 500 and y = 500
               and res = "\<lparr>output' = None, error' = Some ''Viewport not available'',
                           url' = Some ''about:blank''\<rparr>",
             THEN conjunct2, THEN conjunct1] h
    by simp
  moreover have "dragAndDrop headless_driver 0 0 500 500 ''about:blank'' =
       Inr (\<lparr>output' = None, error' = Some ''Viewport not available'',
             url' = Some ''about:blank''\<rparr>, ''about:blank'')"
    using w [where d = headless_driver and s = "''about:blank''" and s' = "''about:blank''"
               and x = 0 and y = 0 and destX = 500 and destY = 500
               and res = "\<lparr>output' = None, error' = Some ''Viewport not available'',
                           url' = Some ''about:blank''\<rparr>",
             THEN conjunct2, THEN conjunct2, THEN conjunct2, THEN conjunct2, THEN conjunct1] h
    by simp
  ultimately show ?thesis by blast
qed


section \<open>The allow check of the URL guard\<close>

subsection \<open>How a URL pattern is read\<close>

lemma append_single_fun: "(@) [x] = (#) x"
  by (rule ext) simp

lemma append_pair_fun: "(@) [x, y] = (\<lambda>zs. x # y # zs)"
  by (rule ext) simp

lemma tokenize_url_step:
  "tokenize (star_to_dot_star (escape_except_star (c # p))) =
     map_option ((@) (url_toks [c])) (tokenize (star_to_dot_star (escape_except_star p)))"
proof (cases "c \<in> set (''.+?^${}()|[]'' @ [BS])")
  case True
  then show ?thesis
    by (auto simp: star_to_dot_star_def escape_except_star_def url_toks_def syntax_chars_def
        option.map_comp comp_def append_single_fun append_pair_fun)
next
  case False
  then show ?thesis
    by (auto simp: star_to_dot_star_def escape_except_star_def url_toks_def syntax_chars_def
        option.map_comp comp_def append_single_fun append_pair_fun)
qed

lemma tokenize_url: "tokenize (star_to_dot_star (escape_except_star p)) = Some (url_toks p)"
proof (induction p)
  case Nil
  show ?case by (simp add: star_to_dot_star_def escape_except_star_def url_toks_def)
next
  case (Cons c p)
  have "url_toks (c # p) = url_toks [c] @ url_toks p" by (simp add: url_toks_def)
  with Cons show ?case by (simp add: tokenize_url_step del: tokenize.simps)
qed

lemma parse_url_toks:
  "parse (url_toks p @ ts) f st = parse ts (fst f, rev (url_items p) @ snd f) st"
  by (induction p arbitrary: f) (simp_all add: url_toks_def url_items_def)

lemma no_bar_url_toks: "TBar \<notin> set (url_toks p)"
  by (auto simp: url_toks_def)

lemma patternToRegex_eq:
  "patternToRegex p =
     Some \<lparr>re_source = CHR ''^'' # star_to_dot_star (escape_except_star p),
           re_ignoreCase = True, re_anchored = True, re_body = mk_seq (url_items p)\<rparr>"
  using parse_url_toks [of p "[]" "([], [])" "[]"]
  by (simp add: patternToRegex_def RegExp_def tokenize_url no_bar_url_toks close_frame_def)

lemma pm_StarAtom_set:
  "set (pm ic (StarAtom c) s) =
     {drop k s | k. k \<le> length s \<and> list_all (cls_match ic c) (take k s)}"
proof (induction s)
  case Nil
  show ?case by auto
next
  case (Cons x xs)
  show ?case
  proof (cases "cls_match ic c x")
    case True
    have "{drop k (x # xs) | k. k \<le> length (x # xs) \<and> list_all (cls_match ic c) (take k (x # xs))}
        = insert (x # xs) {drop j xs | j. j \<le> length xs \<and> list_all (cls_match ic c) (take j xs)}"
      (is "?L = ?R")
    proof (intro equalityI subsetI)
      fix t assume "t \<in> ?L"
      then obtain k where k: "t = drop k (x # xs)" "k \<le> length (x # xs)"
        "list_all (cls_match ic c) (take k (x # xs))" by blast
      show "t \<in> ?R"
      proof (cases k)
        case 0
        with k show ?thesis by simp
      next
        case (Suc j)
        with k have "t = drop j xs" "j \<le> length xs" "list_all (cls_match ic c) (take j xs)"
          by simp_all
        then show ?thesis by blast
      qed
    next
      fix t assume "t \<in> ?R"
      then consider "t = x # xs"
        | j where "t = drop j xs" "j \<le> length xs" "list_all (cls_match ic c) (take j xs)"
        by blast
      then show "t \<in> ?L"
      proof cases
        case 1
        then have "t = drop 0 (x # xs)" by simp
        then show ?thesis by force
      next
        case 2
        with True have "t = drop (Suc j) (x # xs)" "Suc j \<le> length (x # xs)"
          "list_all (cls_match ic c) (take (Suc j) (x # xs))" by simp_all
        then show ?thesis by blast
      qed
    qed
    with True Cons show ?thesis by simp
  next
    case False
    have "{drop k (x # xs) | k. k \<le> length (x # xs) \<and> list_all (cls_match ic c) (take k (x # xs))}
        = {x # xs}" (is "?L = _")
    proof (intro equalityI subsetI)
      fix t assume "t \<in> ?L"
      then obtain k where k: "t = drop k (x # xs)"
        "list_all (cls_match ic c) (take k (x # xs))" by blast
      with False have "k = 0" by (cases k) simp_all
      with k show "t \<in> {x # xs}" by simp
    next
      fix t assume "t \<in> {x # xs}"
      then have "t = drop 0 (x # xs)" by simp
      then show "t \<in> ?L" by force
    qed
    with False show ?thesis by simp
  qed
qed

lemma pm_Seq_nonempty:
  "(pm ic (Seq a b) s \<noteq> []) = (\<exists>t \<in> set (pm ic a s). pm ic b t \<noteq> [])"
  by auto

lemma mk_seq_Cons: "mk_seq (r # rs) = Seq r (mk_seq rs)"
  by (simp add: mk_seq_def)

lemma mk_seq_Nil: "mk_seq [] = Eps"
  by (simp add: mk_seq_def)

lemma list_ex_upt_Suc: "list_ex P [0..<Suc n] = (\<exists>k\<le>n. P k)"
  by (auto simp del: upt_Suc simp add: list_ex_iff less_Suc_eq_le)

lemma url_match_iff:
  "(pm True (mk_seq (url_items p)) u \<noteq> []) = wildcard_prefix_match not_line_terminator p u"
proof (induction p arbitrary: u)
  case Nil
  show ?case by (simp add: url_items_def mk_seq_Nil)
next
  case (Cons c p)
  show ?case
  proof (cases "c = CHR ''*''")
    case True
    have items: "url_items (c # p) = StarAtom AnyChar # url_items p"
      using True by (simp add: url_items_def)
    have cm: "cls_match True AnyChar = not_line_terminator" by (rule ext) simp
    have "(pm True (mk_seq (url_items (c # p))) u \<noteq> []) =
        (\<exists>k\<le>length u. list_all not_line_terminator (take k u) \<and>
            pm True (mk_seq (url_items p)) (drop k u) \<noteq> [])"
      unfolding items mk_seq_Cons pm_Seq_nonempty pm_StarAtom_set cm by blast
    also have "\<dots> = wildcard_prefix_match not_line_terminator (c # p) u"
      using True by (simp add: Cons.IH list_ex_upt_Suc del: upt_Suc)
    finally show ?thesis .
  next
    case False
    then have items: "url_items (c # p) = Atom (Lit c) # url_items p"
      by (simp add: url_items_def)
    show ?thesis
      unfolding items mk_seq_Cons pm_Seq_nonempty
      using False by (cases u) (simp_all add: Cons.IH)
  qed
qed

lemma regex_test_patternToRegex:
  "(case patternToRegex p of Some regex \<Rightarrow> regex_test regex url | None \<Rightarrow> False) =
     wildcard_prefix_match not_line_terminator p url"
  by (simp add: patternToRegex_eq regex_test_def url_match_iff)

lemma matchesAnyPattern_iff:
  "matchesAnyPattern url ps = (\<exists>p \<in> set ps. wildcard_prefix_match not_line_terminator p url)"
  by (simp add: matchesAnyPattern_def regex_test_patternToRegex list_ex_iff)

text \<open>
  Claim C6, as stated, fails: with the pattern \<open>https://*.test.org\<close> configured, a URL
  with a line feed where the \<open>*\<close> stands starts with the pattern when \<open>*\<close> means any
  characters, and is rejected.
\<close>

theorem wildcard_does_not_cross_lines:
  "\<not> isBlockedUrl two_line_url
   \<and> wildcard_prefix_match any_character ''https://*.test.org'' two_line_url
   \<and> \<not> isUrlAllowed two_line_url test_org_config"
  by code_simp

text \<open>
  Claim C6, amended. A URL that is not blocked is allowed when no pattern is configured;
  otherwise it is allowed exactly when it matches one of the default or configured
  patterns, where a pattern is matched case-insensitively at the start of the URL and
  each \<open>*\<close> stands for any characters other than line terminators. With
  \<open>https://*.test.org\<close> configured, \<open>https://sub.test.org/path\<close> is allowed and
  \<open>https://blocked.com\<close> is not.
\<close>

theorem url_allow_check:
  "(\<not> isBlockedUrl u \<longrightarrow>
      isUrlAllowed u config =
        (case allowedDomains config of
           None \<Rightarrow> True
         | Some user \<Rightarrow>
             user = [] \<or>
             (\<exists>p \<in> set (DEFAULT_ALLOWED_PATTERNS @ user).
                 wildcard_prefix_match not_line_terminator p u)))
   \<and> isUrlAllowed ''https://sub.test.org/path'' test_org_config
   \<and> \<not> isUrlAllowed ''https://blocked.com'' test_org_config"
proof (intro conjI impI)
  assume "\<not> isBlockedUrl u"
  then show "isUrlAllowed u config =
        (case allowedDomains config of
           None \<Rightarrow> True
         | Some user \<Rightarrow>
             user = [] \<or>
             (\<exists>p \<in> set (DEFAULT_ALLOWED_PATTERNS @ user).
                 wildcard_prefix_match not_line_terminator p u))"
    by (auto simp: isUrlAllowed_def matchesAnyPattern_iff split: option.splits)
next
  show "isUrlAllowed ''https://sub.test.org/path'' test_org_config"
    by code_simp
next
  show "\<not> isUrlAllowed ''https://blocked.com'' test_org_config"
    by code_simp
qed

theorem url_allow_check_witness:
  "\<not> isBlockedUrl ''https://GitHub.com/x''
   \<and> isUrlAllowed ''https://GitHub.com/x'' test_org_config
   \<and> \<not> isBlockedUrl ''https://example.com''
   \<and> isUrlAllowed ''https://example.com'' \<lparr>allowedDomains = None\<rparr>
   \<and> \<not> isUrlAllowed two_line_url test_org_config"
proof -
  have nb: "\<not> isBlockedUrl ''https://GitHub.com/x''" "\<not> isBlockedUrl ''https://example.com''"
    "\<not> isBlockedUrl two_line_url"
    by code_simp+
  have m: "wildcard_prefix_match not_line_terminator ''https://github.com'' ''https://GitHub.com/x''"
    by code_simp
  have n: "\<not> (\<exists>p \<in> set (DEFAULT_ALLOWED_PATTERNS @ [''https://*.test.org'']).
                 wildcard_prefix_match not_line_terminator p two_line_url)"
    by code_simp
  have "isUrlAllowed ''https://GitHub.com/x'' test_org_config"
    using url_allow_check [of "''https://GitHub.com/x''" test_org_config] nb m
    by (auto simp: test_org_config_def DEFAULT_ALLOWED_PATTERNS_def)
  moreover have "isUrlAllowed ''https://example.com'' \<lparr>allowedDomains = None\<rparr>"
    using url_allow_check [of "''https://example.com''" "\<lparr>allowedDomains = None\<rparr>"] nb
    by simp
  moreover have "\<not> isUrlAllowed two_line_url test_org_config"
    using url_allow_check [of two_line_url test_org_config] nb n
    by (simp add: test_org_config_def)
  ultimately show ?thesis using nb by simp
qed


section \<open>The rules injected on entering plan mode\<close>

subsection \<open>How the pattern of a rule is read\<close>

lemma tokenize_escaped_char:
  "tokenize (escapeRegExp [c] @ r) = map_option ((#) (TAtom (Lit c))) (tokenize r)"
proof (cases "c \<in> set (''.*+?^${}()|[]'' @ [BS])")
  case True
  then show ?thesis
    by (auto simp: escapeRegExp_def syntax_chars_def)
next
  case False
  then show ?thesis
    by (auto simp: escapeRegExp_def syntax_chars_def)
qed

lemma escapeRegExp_Cons: "escapeRegExp (c # P) = escapeRegExp [c] @ escapeRegExp P"
  by (simp add: escapeRegExp_def)

lemma tokenize_escaped:
  "tokenize (escapeRegExp P @ r) =
     map_option ((@) (map (\<lambda>c. TAtom (Lit c)) P)) (tokenize r)"
proof (induction P)
  case Nil
  show ?case by (simp add: escapeRegExp_def option.map_ident)
next
  case (Cons c P)
  have "tokenize (escapeRegExp (c # P) @ r) =
          map_option ((#) (TAtom (Lit c))) (tokenize (escapeRegExp P @ r))"
    using tokenize_escaped_char [of c "escapeRegExp P @ r"]
    by (simp add: escapeRegExp_Cons [of c P])
  then show ?case
    by (simp add: Cons.IH option.map_comp comp_def)
qed

lemma tokenize_argsPattern_source:
  "tokenize (argsPattern_source (escapeRegExp P)) = Some (args_toks P)"
proof -
  have "tokenize (escapeRegExp P @ ''(?:/.*)?'' @ [DQ]) =
          Some (map (\<lambda>c. TAtom (Lit c)) P
                @ [TOpen, TAtom (Lit (CHR ''/'')), TAtom AnyChar, TStar, TClose, TQuest,
                   TAtom (Lit DQ)])"
    using tokenize_escaped [of P "''(?:/.*)?'' @ [DQ]"] by (simp add: syntax_chars_def)
  then show ?thesis
    by (simp add: argsPattern_source_def syntax_chars_def args_toks_def)
qed

lemma parse_lits:
  "parse (map (\<lambda>c. TAtom (Lit c)) s @ ts) f st = parse ts (fst f, rev (lits s) @ snd f) st"
  by (induction s arbitrary: f) (simp_all add: lits_def)

lemma parse_args_toks: "parse (args_toks P) ([], []) [] = Some (argsPattern_body P)"
  unfolding args_toks_def parse_lits
  by (simp add: close_frame_def argsPattern_body_def)

lemma no_bar_args_toks: "TBar \<notin> set (args_toks P)"
  by (auto simp: args_toks_def)

lemma RegExp_argsPattern:
  "RegExp (argsPattern_source (escapeRegExp P)) False =
     Some \<lparr>re_source = argsPattern_source (escapeRegExp P), re_ignoreCase = False,
           re_anchored = False, re_body = argsPattern_body P\<rparr>"
proof -
  have "argsPattern_source (escapeRegExp P) \<noteq> []"
    "hd (argsPattern_source (escapeRegExp P)) \<noteq> CHR ''^''"
    by (simp_all add: argsPattern_source_def)
  then show ?thesis
    by (simp add: RegExp_def tokenize_argsPattern_source parse_args_toks no_bar_args_toks)
qed

lemma addPlanModeRules_eq:
  "addPlanModeRules (escapeRegExp P) tools config =
     (None, foldl (\<lambda>c tool. addPolicyRule (plan_mode_rule P tool) c) config tools)"
  by (induction tools arbitrary: config) (simp_all add: RegExp_argsPattern plan_mode_rule_def)

lemma policyRules_foldl_add:
  "policyRules (foldl (\<lambda>c tool. addPolicyRule (f tool) c) config tools) =
     policyRules config @ map f tools"
  by (induction tools arbitrary: config) (simp_all add: addPolicyRule_def)

lemma policyRules_switch: "policyRules (snd (switchToPlanMode this config)) = policyRules config"
  by (simp add: switchToPlanMode_def setApprovalMode_def Let_def)

text \<open>The rules a run of \<open>execute\<close> has added.\<close>

lemma execute_rules:
  "policyRules (snd (execute this config)) =
     policyRules config @
     (if confirmationOutcome this \<noteq> Some Cancel \<and> truthy (path (params this))
         \<and> \<not> truthy (validatePathAccess config
                        (path_resolve (cwd config) (getTargetDir config)
                           (case path (params this) of Some p \<Rightarrow> p | None \<Rightarrow> [])))
      then map (plan_mode_rule
                  (path_resolve (cwd config) (getTargetDir config)
                     (case path (params this) of Some p \<Rightarrow> p | None \<Rightarrow> [])))
               (case allowed_tools (params this) of Some ts \<Rightarrow> ts
                | None \<Rightarrow> [''write_file'', ''replace''])
      else [])"
  by (simp add: execute_def Let_def addPlanModeRules_eq policyRules_foldl_add policyRules_switch
      split_beta)

subsection \<open>What the pattern matches\<close>

lemma pm_lits:
  "pm False (mk_seq (lits A @ R)) s =
     (if prefix A s then pm False (mk_seq R) (drop (length A) s) else [])"
proof (induction A arbitrary: s)
  case Nil
  show ?case by (simp add: lits_def)
next
  case (Cons a A)
  have m: "mk_seq (lits (a # A) @ R) = Seq (Atom (Lit a)) (mk_seq (lits A @ R))"
    by (simp add: lits_def mk_seq_def)
  show ?case
  proof (cases s)
    case Nil
    then show ?thesis by (simp add: m)
  next
    case (Cons x xs)
    then show ?thesis by (simp add: m Cons.IH)
  qed
qed

lemma search_iff: "search ic r s = (\<exists>k\<le>length s. pm ic r (drop k s) \<noteq> [])"
proof (induction s)
  case Nil
  show ?case by simp
next
  case (Cons x xs)
  have "(\<exists>k\<le>length (x # xs). pm ic r (drop k (x # xs)) \<noteq> []) =
          (pm ic r (x # xs) \<noteq> [] \<or> (\<exists>j\<le>length xs. pm ic r (drop j xs) \<noteq> []))"
    (is "?L = ?R")
  proof
    assume ?L
    then obtain k where k: "k \<le> length (x # xs)" "pm ic r (drop k (x # xs)) \<noteq> []" by blast
    show ?R
    proof (cases k)
      case 0
      with k show ?thesis by simp
    next
      case (Suc j)
      with k have "j \<le> length xs" "pm ic r (drop j xs) \<noteq> []" by simp_all
      then show ?thesis by blast
    qed
  next
    assume ?R
    then show ?L
    proof
      assume "pm ic r (x # xs) \<noteq> []"
      then have "pm ic r (drop 0 (x # xs)) \<noteq> []" by simp
      then show ?L by blast
    next
      assume "\<exists>j\<le>length xs. pm ic r (drop j xs) \<noteq> []"
      then obtain j where "j \<le> length xs" "pm ic r (drop j xs) \<noteq> []" by blast
      then have "Suc j \<le> length (x # xs)" "pm ic r (drop (Suc j) (x # xs)) \<noteq> []" by simp_all
      then show ?L by blast
    qed
  qed
  with Cons.IH show ?case by simp
qed

lemma argsPattern_body_eq:
  "argsPattern_body P = mk_seq (lits (file_path_prefix @ P) @ tail_rx)"
  by (simp add: argsPattern_body_def tail_rx_def file_path_prefix_def)

lemma file_path_argument_eq: "file_path_argument p = file_path_prefix @ p @ [DQ]"
  by (simp add: file_path_argument_def file_path_prefix_def)

lemma tail_no_match:
  "t \<noteq> [] \<Longrightarrow> hd t \<noteq> CHR ''/'' \<Longrightarrow> hd t \<noteq> DQ \<Longrightarrow> pm False (mk_seq tail_rx) t = []"
  by (cases t) (simp_all add: tail_rx_def mk_seq_def)

lemma tail_match_quote: "pm False (mk_seq tail_rx) (DQ # t) \<noteq> []"
  by (simp add: tail_rx_def mk_seq_def)

lemma tail_match_nested:
  assumes "list_all not_line_terminator u"
  shows "pm False (mk_seq tail_rx) (CHR ''/'' # u @ DQ # t) \<noteq> []"
proof -
  have "drop (length u) (u @ DQ # t) \<in> set (pm False (StarAtom AnyChar) (u @ DQ # t))"
    unfolding pm_StarAtom_set using assms
    by (intro CollectI exI [of _ "length u"]) (simp add: list_all_iff)
  then have "DQ # t \<in> set (pm False (StarAtom AnyChar) (u @ DQ # t))" by simp
  then have "DQ # t \<in> set (pm False (mk_seq [Atom (Lit (CHR ''/'')), StarAtom AnyChar])
                             (CHR ''/'' # u @ DQ # t))"
    by (simp add: mk_seq_def)
  then have "DQ # t \<in> set (pm False (Alt (mk_seq [Atom (Lit (CHR ''/'')), StarAtom AnyChar]) Eps)
                             (CHR ''/'' # u @ DQ # t))"
    by simp
  moreover have "pm False (mk_seq [Atom (Lit DQ)]) (DQ # t) \<noteq> []"
    by (simp add: mk_seq_def)
  ultimately show ?thesis
    unfolding tail_rx_def mk_seq_Cons pm_Seq_nonempty by blast
qed

lemma quotes_zero: "DQ \<notin> set s \<Longrightarrow> quotes s = 0"
  by (induction s) auto

lemma quotes_last: "s \<noteq> [] \<Longrightarrow> last s = DQ \<Longrightarrow> 1 \<le> quotes s"
  by (induction s) (auto split: if_splits)

lemma quotes_prefix: "quotes file_path_prefix = 3"
  by (simp add: file_path_prefix_def)

lemma body_no_match_sibling:
  assumes P: "P \<noteq> []" and sfx: "sfx \<noteq> []" "hd sfx \<noteq> CHR ''/''"
      and noq: "DQ \<notin> set (P @ sfx)"
  shows "\<not> search False (argsPattern_body P) (file_path_argument (P @ sfx))"
proof
  define A where "A = file_path_prefix @ P"
  define S where "S = A @ sfx @ [DQ]"
  have S: "file_path_argument (P @ sfx) = S"
    by (simp add: file_path_argument_eq S_def A_def)
  have qP: "quotes P = 0" and qs: "quotes sfx = 0" using noq by (simp_all add: quotes_zero)
  have qA: "quotes A = 3" using qP by (simp add: A_def quotes_prefix)
  have qS: "quotes S = 4" using qA qs by (simp add: S_def)
  obtain r where hdS: "S = DQ # r"
    by (simp add: S_def A_def file_path_prefix_def)
  have A_ne: "A \<noteq> []" and lastA: "last A = last P" using P by (simp_all add: A_def)
  assume "search False (argsPattern_body P) (file_path_argument (P @ sfx))"
  then obtain k where k: "pm False (argsPattern_body P) (drop k S) \<noteq> []"
    unfolding search_iff S by blast
  have body: "argsPattern_body P = mk_seq (lits A @ tail_rx)"
    by (simp add: argsPattern_body_eq A_def)
  have m: "pm False (mk_seq (lits A @ tail_rx)) (drop k S) =
             (if prefix A (drop k S)
              then pm False (mk_seq tail_rx) (drop (length A) (drop k S)) else [])"
    by (rule pm_lits)
  have pre: "prefix A (drop k S)"
  proof (rule ccontr)
    assume "\<not> prefix A (drop k S)"
    with m have "pm False (mk_seq (lits A @ tail_rx)) (drop k S) = []" by simp
    with k body show False by simp
  qed
  with m k body have tl: "pm False (mk_seq tail_rx) (drop (length A) (drop k S)) \<noteq> []"
    by simp
  show False
  proof (cases k)
    case 0
    obtain c cs where c: "sfx = c # cs" using sfx by (cases sfx) auto
    have "hd (sfx @ [DQ]) \<noteq> DQ" "hd (sfx @ [DQ]) \<noteq> CHR ''/''" "sfx @ [DQ] \<noteq> []"
      using sfx noq by (auto simp: c)
    then have "pm False (mk_seq tail_rx) (sfx @ [DQ]) = []"
      by (intro tail_no_match)
    with tl 0 show False by (simp add: S_def)
  next
    case (Suc j)
    from pre obtain rest where rest: "drop k S = A @ rest" by (auto simp: prefix_def)
    have split: "S = take k S @ A @ rest"
      using rest append_take_drop_id [of k S] by simp
    have "take k S = DQ # take j r"
      by (simp add: hdS Suc)
    then have q1: "1 \<le> quotes (take k S)" by simp
    have lastS: "last S = DQ" by (simp add: S_def)
    have rest_ne: "rest \<noteq> []"
    proof
      assume "rest = []"
      with split have "S = take k S @ A" by simp
      then have "last S = last A" using A_ne by (metis last_appendR)
      with lastS lastA have "last P = DQ" by simp
      moreover have "last P \<in> set P" using P by simp
      ultimately show False using noq by auto
    qed
    have "last rest = last S"
      using rest_ne by (subst split) simp
    with rest_ne lastS have q3: "1 \<le> quotes rest" by (intro quotes_last) simp_all
    have "quotes S = quotes (take k S) + quotes A + quotes rest"
      by (subst split) (simp only: filter_append length_append add.assoc)
    with q1 q3 qA qS show False by simp
  qed
qed

lemma body_match_exact: "search False (argsPattern_body P) (file_path_argument P)"
proof -
  have "pm False (argsPattern_body P) (drop 0 (file_path_argument P)) \<noteq> []"
    unfolding argsPattern_body_eq pm_lits
    using tail_match_quote [of "[]"] by (simp add: file_path_argument_eq)
  then show ?thesis unfolding search_iff by blast
qed

lemma body_match_nested:
  assumes "list_all not_line_terminator u"
  shows "search False (argsPattern_body P) (file_path_argument (P @ CHR ''/'' # u))"
proof -
  have "pm False (argsPattern_body P) (drop 0 (file_path_argument (P @ CHR ''/'' # u))) \<noteq> []"
    unfolding argsPattern_body_eq pm_lits
    using tail_match_nested [OF assms, of "[]"] by (simp add: file_path_argument_eq)
  then show ?thesis unfolding search_iff by blast
qed

lemma path_resolve_nonempty: "path_resolve wd base p \<noteq> []"
  by (simp add: path_resolve_def normalize_absolute_def Let_def)

lemma injected_rule_is_plan_mode_rule:
  assumes "rule \<in> set (drop (length (policyRules config))
                          (policyRules (snd (execute this config))))"
      and "path (params this) = Some p"
  shows "\<exists>tool. rule = plan_mode_rule (path_resolve (cwd config) (getTargetDir config) p) tool"
  using assms by (auto simp: execute_rules split: if_splits)

lemma regex_test_plan_mode_rule:
  "regex_test (argsPattern (plan_mode_rule P tool)) s = search False (argsPattern_body P) s"
  by (simp add: plan_mode_rule_def regex_test_def)

lemma quote_then_match: "(pm False (mk_seq [Atom (Lit DQ)]) r \<noteq> []) = (\<exists>b. r = DQ # b)"
  by (cases r) (auto simp: mk_seq_def)

lemma tail_match_iff:
  "(pm False (mk_seq tail_rx) t \<noteq> []) =
     ((\<exists>b. t = DQ # b)
      \<or> (\<exists>u b. t = CHR ''/'' # u @ DQ # b \<and> list_all not_line_terminator u))"
proof
  assume m: "pm False (mk_seq tail_rx) t \<noteq> []"
  let ?nested = "mk_seq [Atom (Lit (CHR ''/'')), StarAtom AnyChar]"
  from m obtain r where r: "r \<in> set (pm False (Alt ?nested Eps) t)"
    and q: "pm False (mk_seq [Atom (Lit DQ)]) r \<noteq> []"
    unfolding tail_rx_def mk_seq_Cons pm_Seq_nonempty by blast
  from q obtain b where b: "r = DQ # b" unfolding quote_then_match by blast
  from r have "r = t \<or> r \<in> set (pm False ?nested t)" by auto
  then show "(\<exists>b. t = DQ # b)
      \<or> (\<exists>u b. t = CHR ''/'' # u @ DQ # b \<and> list_all not_line_terminator u)"
  proof
    assume "r = t"
    with b show ?thesis by blast
  next
    assume n: "r \<in> set (pm False ?nested t)"
    then obtain t' where t: "t = CHR ''/'' # t'"
      by (cases t) (auto simp: mk_seq_def split: if_splits)
    with n have "r \<in> set (pm False (StarAtom AnyChar) t')"
      by (simp add: mk_seq_def)
    then obtain k where k: "r = drop k t'" "k \<le> length t'"
      "list_all (cls_match False AnyChar) (take k t')"
      unfolding pm_StarAtom_set by blast
    have "t' = take k t' @ DQ # b" using k(1) b by (metis append_take_drop_id)
    moreover have "list_all not_line_terminator (take k t')"
      using k(3) by (simp add: list_all_iff)
    ultimately show ?thesis using t by blast
  qed
next
  assume "(\<exists>b. t = DQ # b)
      \<or> (\<exists>u b. t = CHR ''/'' # u @ DQ # b \<and> list_all not_line_terminator u)"
  then show "pm False (mk_seq tail_rx) t \<noteq> []"
    using tail_match_quote tail_match_nested by blast
qed

lemma body_match_iff:
  "search False (argsPattern_body P) args =
     ((\<exists>a b. args = a @ file_path_argument P @ b)
      \<or> (\<exists>a u b. args = a @ file_path_argument (P @ CHR ''/'' # u) @ b
                 \<and> list_all not_line_terminator u))"
proof
  assume "search False (argsPattern_body P) args"
  then obtain k where k: "pm False (argsPattern_body P) (drop k args) \<noteq> []"
    unfolding search_iff by blast
  define A where "A = file_path_prefix @ P"
  have body: "argsPattern_body P = mk_seq (lits A @ tail_rx)"
    by (simp add: argsPattern_body_eq A_def)
  have m: "pm False (mk_seq (lits A @ tail_rx)) (drop k args) =
             (if prefix A (drop k args)
              then pm False (mk_seq tail_rx) (drop (length A) (drop k args)) else [])"
    by (rule pm_lits)
  have pre: "prefix A (drop k args)"
  proof (rule ccontr)
    assume "\<not> prefix A (drop k args)"
    with m have "pm False (mk_seq (lits A @ tail_rx)) (drop k args) = []" by simp
    with k body show False by simp
  qed
  then obtain t where t: "drop k args = A @ t" by (auto simp: prefix_def)
  with m k body pre have "pm False (mk_seq tail_rx) t \<noteq> []" by simp
  then consider b where "t = DQ # b"
    | u b where "t = CHR ''/'' # u @ DQ # b" "list_all not_line_terminator u"
    unfolding tail_match_iff by blast
  then show "(\<exists>a b. args = a @ file_path_argument P @ b)
      \<or> (\<exists>a u b. args = a @ file_path_argument (P @ CHR ''/'' # u) @ b
                 \<and> list_all not_line_terminator u)"
  proof cases
    case 1
    have "args = take k args @ file_path_argument P @ b"
      using t 1 append_take_drop_id [of k args]
      by (simp add: file_path_argument_eq A_def)
    then show ?thesis by blast
  next
    case 2
    have "args = take k args @ file_path_argument (P @ CHR ''/'' # u) @ b"
      using t 2(1) append_take_drop_id [of k args]
      by (simp add: file_path_argument_eq A_def)
    with 2(2) show ?thesis by blast
  qed
next
  assume "(\<exists>a b. args = a @ file_path_argument P @ b)
      \<or> (\<exists>a u b. args = a @ file_path_argument (P @ CHR ''/'' # u) @ b
                 \<and> list_all not_line_terminator u)"
  then consider a b where "args = a @ file_path_argument P @ b"
    | a u b where "args = a @ file_path_argument (P @ CHR ''/'' # u) @ b"
        "list_all not_line_terminator u"
    by blast
  then show "search False (argsPattern_body P) args"
  proof cases
    case 1
    have "pm False (argsPattern_body P) (drop (length a) args) \<noteq> []"
      unfolding argsPattern_body_eq pm_lits
      using tail_match_quote [of b] by (simp add: 1 file_path_argument_eq)
    moreover have "length a \<le> length args" by (simp add: 1)
    ultimately show ?thesis unfolding search_iff by blast
  next
    case 2
    have "pm False (argsPattern_body P) (drop (length a) args) \<noteq> []"
      unfolding argsPattern_body_eq pm_lits
      using tail_match_nested [OF 2(2), of b] by (simp add: 2(1) file_path_argument_eq)
    moreover have "length a \<le> length args" by (simp add: 2(1))
    ultimately show ?thesis unfolding search_iff by blast
  qed
qed

lemma body_no_match_single_field:
  assumes occ: "occurrences file_path_prefix (a @ file_path_argument (P @ sfx) @ b) = [length a]"
      and sfx: "sfx \<noteq> []" "hd sfx \<noteq> CHR ''/''" "hd sfx \<noteq> DQ"
  shows "\<not> search False (argsPattern_body P) (a @ file_path_argument (P @ sfx) @ b)"
proof
  define T where "T = a @ file_path_argument (P @ sfx) @ b"
  define A where "A = file_path_prefix @ P"
  assume "search False (argsPattern_body P) (a @ file_path_argument (P @ sfx) @ b)"
  then obtain k where k: "k \<le> length T" "pm False (argsPattern_body P) (drop k T) \<noteq> []"
    unfolding search_iff T_def by blast
  have body: "argsPattern_body P = mk_seq (lits A @ tail_rx)"
    by (simp add: argsPattern_body_eq A_def)
  have m: "pm False (mk_seq (lits A @ tail_rx)) (drop k T) =
             (if prefix A (drop k T)
              then pm False (mk_seq tail_rx) (drop (length A) (drop k T)) else [])"
    by (rule pm_lits)
  have pre: "prefix A (drop k T)"
  proof (rule ccontr)
    assume "\<not> prefix A (drop k T)"
    with m have "pm False (mk_seq (lits A @ tail_rx)) (drop k T) = []" by simp
    with k body show False by simp
  qed
  with m k body have tl: "pm False (mk_seq tail_rx) (drop (length A) (drop k T)) \<noteq> []"
    by simp
  from pre have "prefix file_path_prefix (drop k T)"
    by (auto simp: A_def prefix_def)
  with k(1) have "k \<in> set (occurrences file_path_prefix T)"
    by (simp add: occurrences_def del: upt_Suc)
  with occ have ka: "k = length a" by (simp add: T_def)
  have "drop (length A) (drop k T) = sfx @ DQ # b"
    by (simp add: ka T_def A_def file_path_argument_eq)
  moreover have "pm False (mk_seq tail_rx) (sfx @ DQ # b) = []"
    using sfx by (cases sfx) (simp_all add: tail_no_match)
  ultimately show False using tl by simp
qed

lemma feature_path:
  "path_resolve ''/'' ''/app'' ''conductor/tracks/feature-1'' = ''/app/conductor/tracks/feature-1''"
  by code_simp

lemma feature_rules:
  "policyRules (snd (execute feature_invocation (example_config (\<lambda>p. None)))) =
     map (plan_mode_rule ''/app/conductor/tracks/feature-1'') [''write_file'', ''replace'']"
proof -
  let ?cfg = "example_config (\<lambda>p. None)"
  have c: "cwd ?cfg = ''/''" "getTargetDir ?cfg = ''/app''" "policyRules ?cfg = []"
    "validatePathAccess ?cfg = (\<lambda>p. None)"
    by (simp_all add: example_config_def)
  have i: "path (params feature_invocation) = Some ''conductor/tracks/feature-1''"
    "confirmationOutcome feature_invocation = None"
    "allowed_tools (params feature_invocation) = None"
    by (simp_all add: feature_invocation_def example_invocation_def)
  show ?thesis by (simp add: execute_rules c i feature_path)
qed

text \<open>
  Claim C10, as stated, fails: serialized arguments can hold the field
  \<open>"file_path":"Q"\<close> for a sibling \<open>Q\<close> of the granted path and be matched all the same,
  when the granted path stands in them under another key.
\<close>

theorem nested_grant_matches_sibling_arguments:
  "plan_mode_rule ''/app/conductor/tracks/feature-1'' ''write_file''
     \<in> set (policyRules (snd (execute feature_invocation (example_config (\<lambda>p. None)))))
   \<and> regex_test (argsPattern (plan_mode_rule ''/app/conductor/tracks/feature-1'' ''write_file''))
        nested_arguments"
proof -
  have "search False (argsPattern_body ''/app/conductor/tracks/feature-1'') nested_arguments"
    by code_simp
  then show ?thesis by (simp add: feature_rules regex_test_plan_mode_rule)
qed

text \<open>
  Claim C10, amended. The pattern of a rule injected for the granted absolute path \<open>P\<close>
  matches serialized arguments exactly when they hold the text \<open>"file_path":"P\<close> followed
  at once by the closing double quote, or by \<open>/\<close>, characters other than line
  terminators and a double quote. So for every path \<open>P @ sfx\<close> that goes on after \<open>P\<close>
  with a character that is neither \<open>/\<close> nor a double quote, the rule does not match
  serialized arguments in which \<open>"file_path":"\<close> occurs once, in the field
  \<open>"file_path":"P sfx"\<close>; nor the field alone, when the path holds no double quote.
\<close>

theorem injected_rule_matches_the_granted_field_only:
  assumes "rule \<in> set (drop (length (policyRules config))
                          (policyRules (snd (execute this config))))"
      and "path (params this) = Some p"
      and "P = path_resolve (cwd config) (getTargetDir config) p"
  shows "regex_test (argsPattern rule) args =
           ((\<exists>a b. args = a @ file_path_argument P @ b)
            \<or> (\<exists>a u b. args = a @ file_path_argument (P @ CHR ''/'' # u) @ b
                       \<and> list_all not_line_terminator u))
         \<and> (sfx \<noteq> [] \<longrightarrow> hd sfx \<noteq> CHR ''/'' \<longrightarrow> hd sfx \<noteq> DQ
             \<longrightarrow> occurrences file_path_prefix (a @ file_path_argument (P @ sfx) @ b)
                   = [length a]
             \<longrightarrow> \<not> regex_test (argsPattern rule) (a @ file_path_argument (P @ sfx) @ b))
         \<and> (sfx \<noteq> [] \<longrightarrow> hd sfx \<noteq> CHR ''/'' \<longrightarrow> DQ \<notin> set (P @ sfx)
             \<longrightarrow> \<not> regex_test (argsPattern rule) (file_path_argument (P @ sfx)))"
proof -
  obtain tool where r: "rule = plan_mode_rule P tool"
    using injected_rule_is_plan_mode_rule [OF assms(1,2)] assms(3) by blast
  have P: "P \<noteq> []" by (simp add: assms(3) path_resolve_nonempty)
  show ?thesis
    unfolding r regex_test_plan_mode_rule
    using body_match_iff [of P args] body_no_match_single_field [of a P sfx b]
      body_no_match_sibling [OF P, of sfx]
    by blast
qed

theorem injected_rule_matches_the_granted_field_only_witness:
  "plan_mode_rule ''/app/conductor/tracks/feature-1'' ''write_file''
     \<in> set (policyRules (snd (execute feature_invocation (example_config (\<lambda>p. None)))))
   \<and> occurrences file_path_prefix sibling_arguments = [1]
   \<and> \<not> regex_test (argsPattern (plan_mode_rule ''/app/conductor/tracks/feature-1'' ''write_file''))
          sibling_arguments
   \<and> \<not> regex_test (argsPattern (plan_mode_rule ''/app/conductor/tracks/feature-1'' ''write_file''))
          (file_path_argument ''/app/conductor/tracks/feature-1-secrets'')
   \<and> regex_test (argsPattern (plan_mode_rule ''/app/conductor/tracks/feature-1'' ''write_file''))
          (''{'' @ file_path_argument ''/app/conductor/tracks/feature-1/plan.md'' @ ''}'')"
proof -
  let ?cfg = "example_config (\<lambda>p. None)"
  let ?P = "''/app/conductor/tracks/feature-1''"
  let ?rule = "plan_mode_rule ?P ''write_file''"
  have c: "cwd ?cfg = ''/''" "getTargetDir ?cfg = ''/app''" "policyRules ?cfg = []"
    by (simp_all add: example_config_def)
  have i: "path (params feature_invocation) = Some ''conductor/tracks/feature-1''"
    by (simp add: feature_invocation_def example_invocation_def)
  have m: "?rule \<in> set (drop (length (policyRules ?cfg))
                            (policyRules (snd (execute feature_invocation ?cfg))))"
    by (simp add: feature_rules c)
  have P: "?P = path_resolve (cwd ?cfg) (getTargetDir ?cfg) ''conductor/tracks/feature-1''"
    by (simp add: c feature_path)
  note w = injected_rule_matches_the_granted_field_only [OF m i P]
  have occ: "occurrences file_path_prefix sibling_arguments = [1]"
    by code_simp
  define sfx where "sfx = ''-secrets''"
  define a where "a = ''{''"
  define b where "b = '','' @ [DQ] @ ''content'' @ [DQ] @ '':'' @ [DQ] @ ''x'' @ [DQ] @ ''}''"
  have s: "sfx \<noteq> []" "hd sfx \<noteq> CHR ''/''" "hd sfx \<noteq> DQ" "DQ \<notin> set (?P @ sfx)"
    by (simp_all add: sfx_def)
  have sib: "sibling_arguments = a @ file_path_argument (?P @ sfx) @ b"
    by (simp add: sibling_arguments_def a_def b_def sfx_def)
  have occ': "occurrences file_path_prefix (a @ file_path_argument (?P @ sfx) @ b) = [length a]"
    unfolding sib [symmetric] by (simp add: occ a_def)
  have "\<not> regex_test (argsPattern ?rule) (a @ file_path_argument (?P @ sfx) @ b)"
    using w [of _ sfx a b] s occ' by blast
  then have n1: "\<not> regex_test (argsPattern ?rule) sibling_arguments"
    unfolding sib .
  have "\<not> regex_test (argsPattern ?rule) (file_path_argument (?P @ sfx))"
    using w [of _ sfx] s by blast
  then have n2: "\<not> regex_test (argsPattern ?rule)
                    (file_path_argument ''/app/conductor/tracks/feature-1-secrets'')"
    by (simp add: sfx_def)
  define below where "below = ''{'' @ file_path_argument (?P @ CHR ''/'' # ''plan.md'') @ ''}''"
  have "\<exists>a u b. below = a @ file_path_argument (?P @ CHR ''/'' # u) @ b
                 \<and> list_all not_line_terminator u"
    by (rule exI [of _ "''{''"], rule exI [of _ "''plan.md''"], rule exI [of _ "''}''"])
       (simp add: below_def)
  then have "regex_test (argsPattern ?rule) below"
    using w [of below] by blast
  then have p: "regex_test (argsPattern ?rule)
                  (''{'' @ file_path_argument ''/app/conductor/tracks/feature-1/plan.md'' @ ''}'')"
    by (simp add: below_def)
  from n1 n2 p occ show ?thesis by (simp add: feature_rules)
qed


text \<open>The part of claim C3 that holds: an injected rule matches the serialized arguments
  with the granted absolute path itself, and with any path below it that is written on
  one line, whether the path parameter was relative or absolute.\<close>

lemma injected_rule_matches_granted_path:
  assumes "rule \<in> set (drop (length (policyRules config))
                          (policyRules (snd (execute this config))))"
      and "path (params this) = Some p"
  shows "regex_test (argsPattern rule)
           (file_path_argument (path_resolve (cwd config) (getTargetDir config) p))"
    and "list_all not_line_terminator u \<Longrightarrow>
         regex_test (argsPattern rule)
           (file_path_argument (path_resolve (cwd config) (getTargetDir config) p
                                @ CHR ''/'' # u))"
proof -
  obtain tool where r: "rule = plan_mode_rule (path_resolve (cwd config) (getTargetDir config) p) tool"
    using injected_rule_is_plan_mode_rule [OF assms(1,2)] by blast
  show "regex_test (argsPattern rule)
           (file_path_argument (path_resolve (cwd config) (getTargetDir config) p))"
    by (simp add: r regex_test_plan_mode_rule body_match_exact)
  show "regex_test (argsPattern rule)
           (file_path_argument (path_resolve (cwd config) (getTargetDir config) p
                                @ CHR ''/'' # u))"
    if "list_all not_line_terminator u"
    using that by (simp add: r regex_test_plan_mode_rule body_match_nested)
qed

text \<open>
  Claim C3. A grant for a relative path is to match serialized arguments that name the
  path in its relative form as well (the test "should allow relative paths in policy
  rules when relative path is provided" expects it). The code builds the pattern from
  the resolved absolute path only: for the path \<open>conductor\<close> under \<open>/app\<close> the two
  rules added (\<open>write_file\<close>, \<open>replace\<close>) do not match \<open>"file_path":"conductor/product.md"\<close>,
  while they match \<open>"file_path":"/app/conductor/product.md"\<close>.
\<close>

theorem relative_path_argument_is_not_matched:
  "map toolName
     (policyRules (snd (execute
        (example_invocation \<lparr>reason = None, path = Some ''conductor'', allowed_tools = None\<rparr>)
        (example_config (\<lambda>p. None)))))
     = [''write_file'', ''replace'']
   \<and> list_all (\<lambda>rule. \<not> regex_test (argsPattern rule)
                          (file_path_argument ''conductor/product.md''))
       (policyRules (snd (execute
          (example_invocation \<lparr>reason = None, path = Some ''conductor'', allowed_tools = None\<rparr>)
          (example_config (\<lambda>p. None)))))
   \<and> list_all (\<lambda>rule. regex_test (argsPattern rule)
                          (file_path_argument ''/app/conductor/product.md''))
       (policyRules (snd (execute
          (example_invocation \<lparr>reason = None, path = Some ''conductor'', allowed_tools = None\<rparr>)
          (example_config (\<lambda>p. None)))))"
  by code_simp


end
